theory Spec2Isabelle
  imports Main
begin

section \<open>DFA minimisation by the distinguishability table (tarea1.py)\<close>

text \<open>
  The program works on Python integers and Python lists. States, transition targets and
  the state count are \<open>int\<close>; a list is a HOL list; the only exception the three core
  functions can raise is Python's IndexError, which is a value of the result type here.
\<close>

subsection \<open>Python lists\<close>

datatype error = IndexError

type_synonym tabla = "bool list list"

text \<open>\<open>xs[i]\<close>: a negative index counts from the end; outside the list it raises.\<close>

definition py_get :: "'a list \<Rightarrow> int \<Rightarrow> error + 'a" where
  "py_get xs i =
     (let n = int (length xs); k = (if i < 0 then i + n else i)
      in if 0 \<le> k \<and> k < n then Inr (xs ! nat k) else Inl IndexError)"

text \<open>\<open>xs[i] = v\<close>, returning the updated list.\<close>

definition py_set :: "'a list \<Rightarrow> int \<Rightarrow> 'a \<Rightarrow> error + 'a list" where
  "py_set xs i v =
     (let n = int (length xs); k = (if i < 0 then i + n else i)
      in if 0 \<le> k \<and> k < n then Inr (xs[nat k := v]) else Inl IndexError)"

text \<open>\<open>range(a, b)\<close>.\<close>

definition py_range :: "int \<Rightarrow> int \<Rightarrow> int list" where
  "py_range a b = [a..b - 1]"

text \<open>A \<open>for\<close> loop over a list, threading the state and stopping at the first exception.\<close>

fun for_each :: "'a list \<Rightarrow> ('a \<Rightarrow> 's \<Rightarrow> error + 's) \<Rightarrow> 's \<Rightarrow> error + 's" where
  "for_each [] f s = Inr s"
| "for_each (x # xs) f s =
     (case f x s of Inl e \<Rightarrow> Inl e | Inr s' \<Rightarrow> for_each xs f s')"

text \<open>\<open>tabla[p][q]\<close> and \<open>tabla[i][j] = True\<close>.\<close>

definition tabla_get :: "tabla \<Rightarrow> int \<Rightarrow> int \<Rightarrow> error + bool" where
  "tabla_get t p q = (case py_get t p of Inl e \<Rightarrow> Inl e | Inr fila \<Rightarrow> py_get fila q)"

definition tabla_set :: "tabla \<Rightarrow> int \<Rightarrow> int \<Rightarrow> error + tabla" where
  "tabla_set t i j =
     (case py_get t i of Inl e \<Rightarrow> Inl e
      | Inr fila \<Rightarrow>
          (case py_set fila j True of Inl e \<Rightarrow> Inl e
           | Inr fila' \<Rightarrow> py_set t i fila'))"

subsection \<open>validar_entrada\<close>

text \<open>The loop over \<open>estados_finales\<close>: False at the first entry out of range.\<close>

fun finales_validos :: "int \<Rightarrow> int list \<Rightarrow> bool" where
  "finales_validos estados [] = True"
| "finales_validos estados (estado # resto) =
     (if estado < 0 \<or> estado \<ge> estados then False else finales_validos estados resto)"

text \<open>The inner loop over one row, and the outer loop over the rows.\<close>

fun fila_valida :: "int \<Rightarrow> int list \<Rightarrow> bool" where
  "fila_valida estados [] = True"
| "fila_valida estados (destino # resto) =
     (if destino < 0 \<or> destino \<ge> estados then False else fila_valida estados resto)"

fun filas_validas :: "int \<Rightarrow> int list list \<Rightarrow> bool" where
  "filas_validas estados [] = True"
| "filas_validas estados (fila # resto) =
     (if \<not> fila_valida estados fila then False else filas_validas estados resto)"

definition validar_entrada :: "int \<Rightarrow> int list \<Rightarrow> int list list \<Rightarrow> bool" where
  "validar_entrada estados estados_finales transiciones =
     (if estados \<le> 0 then False
      else if \<not> finales_validos estados estados_finales then False
      else if int (length transiciones) \<noteq> estados then False
      else if \<not> filas_validas estados transiciones then False
      else True)"

subsection \<open>crear_tabla_distinguibilidad\<close>

text \<open>Step 1, the body of the two nested loops: mark a pair whose finality differs.\<close>

definition paso1_par :: "int list \<Rightarrow> int \<Rightarrow> int \<Rightarrow> tabla \<Rightarrow> error + tabla" where
  "paso1_par estados_finales i j t =
     (if (i \<in> set estados_finales) \<noteq> (j \<in> set estados_finales) then tabla_set t i j
      else Inr t)"

definition paso1 :: "int \<Rightarrow> int list \<Rightarrow> tabla \<Rightarrow> error + tabla" where
  "paso1 estados estados_finales t =
     for_each (py_range 0 estados)
       (\<lambda>i. for_each (py_range (i + 1) estados) (paso1_par estados_finales i)) t"

text \<open>
  The loop over the symbols of row \<open>i\<close> for one unmarked pair: a symbol that row \<open>j\<close> does
  not have is skipped; the result is True when the loop leaves through \<open>break\<close>.
\<close>

fun buscar_simbolo :: "int list list \<Rightarrow> tabla \<Rightarrow> int \<Rightarrow> int \<Rightarrow> int list \<Rightarrow> error + bool" where
  "buscar_simbolo transiciones t i j [] = Inr False"
| "buscar_simbolo transiciones t i j (simbolo # resto) =
     (case py_get transiciones j of Inl e \<Rightarrow> Inl e
      | Inr fila_j \<Rightarrow>
          if simbolo \<ge> int (length fila_j) then buscar_simbolo transiciones t i j resto
          else
            (case py_get transiciones i of Inl e \<Rightarrow> Inl e
             | Inr fila_i \<Rightarrow>
                 (case py_get fila_i simbolo of Inl e \<Rightarrow> Inl e
                  | Inr p \<Rightarrow>
                      (case py_get fila_j simbolo of Inl e \<Rightarrow> Inl e
                       | Inr q \<Rightarrow>
                           (case (if p > q then tabla_get t q p else tabla_get t p q) of
                              Inl e \<Rightarrow> Inl e
                            | Inr marcado \<Rightarrow>
                                if marcado then Inr True
                                else buscar_simbolo transiciones t i j resto)))))"

text \<open>Step 2, the body of the two nested loops; the state is the table and \<open>cambiado\<close>.\<close>

definition paso2_par :: "int list list \<Rightarrow> int \<Rightarrow> int \<Rightarrow> tabla \<times> bool \<Rightarrow> error + tabla \<times> bool" where
  "paso2_par transiciones i j = (\<lambda>(t, cambiado).
     (case tabla_get t i j of Inl e \<Rightarrow> Inl e
      | Inr marcado \<Rightarrow>
          if marcado then Inr (t, cambiado)
          else
            (case py_get transiciones i of Inl e \<Rightarrow> Inl e
             | Inr fila_i \<Rightarrow>
                 (case buscar_simbolo transiciones t i j (py_range 0 (int (length fila_i))) of
                    Inl e \<Rightarrow> Inl e
                  | Inr hallado \<Rightarrow>
                      if hallado
                      then (case tabla_set t i j of Inl e \<Rightarrow> Inl e | Inr t' \<Rightarrow> Inr (t', True))
                      else Inr (t, cambiado)))))"

text \<open>One pass of the \<open>while\<close> loop: \<open>cambiado = False\<close>, then all pairs.\<close>

definition pasada :: "int \<Rightarrow> int list list \<Rightarrow> tabla \<Rightarrow> error + tabla \<times> bool" where
  "pasada estados transiciones t =
     for_each (py_range 0 estados)
       (\<lambda>i. for_each (py_range (i + 1) estados) (paso2_par transiciones i)) (t, False)"


text \<open>The number of entries that are still False: it drops with every new mark.\<close>

definition pendientes :: "tabla \<Rightarrow> nat" where
  "pendientes t = sum_list (map (\<lambda>fila. length (filter Not fila)) t)"

lemma for_each_invariant:
  assumes "for_each xs f s = Inr s'" and "P s"
    and "\<And>x a b. x \<in> set xs \<Longrightarrow> P a \<Longrightarrow> f x a = Inr b \<Longrightarrow> P b"
  shows "P s'"
  using assms
proof (induction xs arbitrary: s)
  case Nil
  then show ?case by simp
next
  case (Cons x xs)
  from Cons.prems(1) obtain m where m: "f x s = Inr m" and r: "for_each xs f m = Inr s'"
    by (auto split: sum.splits)
  have pm: "P m" using Cons.prems(3)[of x s m] Cons.prems(2) m by simp
  show ?case
  proof (rule Cons.IH[OF r pm])
    fix y a b
    assume "y \<in> set xs" "P a" "f y a = Inr b"
    then show "P b" using Cons.prems(3)[of y a b] by simp
  qed
qed

lemma filter_Not_update_le:
  "length (filter Not (fila[k := True])) \<le> length (filter Not fila)"
proof (induction fila arbitrary: k)
  case Nil
  then show ?case by simp
next
  case (Cons b fila)
  then show ?case by (cases k) (auto intro: le_SucI)
qed

lemma filter_Not_update_less:
  "k < length fila \<Longrightarrow> \<not> fila ! k \<Longrightarrow>
   length (filter Not (fila[k := True])) < length (filter Not fila)"
proof (induction fila arbitrary: k)
  case Nil
  then show ?case by simp
next
  case (Cons b fila)
  show ?case
  proof (cases k)
    case 0
    then show ?thesis using Cons.prems by simp
  next
    case (Suc k')
    then show ?thesis using Cons.IH[of k'] Cons.prems by auto
  qed
qed

lemma pendientes_update_less:
  assumes "a < length t" and "k < length (t ! a)" and "\<not> t ! a ! k"
  shows "pendientes (t[a := (t ! a)[k := True]]) < pendientes t"
proof -
  let ?f = "\<lambda>fila. length (filter Not fila)"
  have lt: "?f ((t ! a)[k := True]) < ?f (t ! a)"
    using assms by (simp add: filter_Not_update_less)
  have "sum_list ((map ?f t)[a := ?f ((t ! a)[k := True])])
        = sum_list (map ?f t) + ?f ((t ! a)[k := True]) - map ?f t ! a"
    using assms(1) by (simp add: sum_list_update)
  moreover have "map ?f t ! a \<le> sum_list (map ?f t)"
    using assms(1) by (simp add: member_le_sum_list)
  ultimately show ?thesis
    using lt assms(1) by (simp add: pendientes_def map_update)
qed

lemma tabla_set_pendientes:
  assumes "tabla_get t i j = Inr False" and "tabla_set t i j = Inr t'"
  shows "pendientes t' < pendientes t"
proof -
  define a where "a = nat (if i < 0 then i + int (length t) else i)"
  from assms(1) have ia: "a < length t" and gi: "py_get t i = Inr (t ! a)"
    by (auto simp: tabla_get_def py_get_def Let_def a_def split: sum.splits if_splits)
  define k where "k = nat (if j < 0 then j + int (length (t ! a)) else j)"
  from assms(1) gi have jk: "k < length (t ! a)" and v: "\<not> t ! a ! k"
    by (auto simp: tabla_get_def py_get_def Let_def k_def split: if_splits)
  from assms(2) gi jk ia have "t' = t[a := (t ! a)[k := True]]"
    by (auto simp: tabla_set_def py_set_def Let_def k_def a_def split: if_splits sum.splits)
  then show ?thesis using pendientes_update_less[OF ia jk v] by simp
qed

lemma paso2_par_pendientes:
  assumes "paso2_par transiciones i j (t, c) = Inr (t', c')"
  shows "pendientes t' \<le> pendientes t \<and> (c' \<longrightarrow> c \<or> pendientes t' < pendientes t)"
  using assms tabla_set_pendientes[of t i j]
  by (auto simp: paso2_par_def split: sum.splits if_splits dest: less_imp_le)

lemma pasada_pendientes:
  assumes "pasada estados transiciones t = Inr (t', True)"
  shows "pendientes t' < pendientes t"
proof -
  let ?P = "\<lambda>s. pendientes (fst s) \<le> pendientes t \<and> (snd s \<longrightarrow> pendientes (fst s) < pendientes t)"
  have inner: "?P b" if "for_each js (paso2_par transiciones i) a = Inr b" "?P a" for js i a b
    using that(1)
  proof (rule for_each_invariant[where P = ?P])
    show "?P a" by (rule that(2))
  next
    fix x u v
    assume "?P u" "paso2_par transiciones i x u = Inr v"
    then show "?P v"
      using paso2_par_pendientes[of transiciones i x "fst u" "snd u" "fst v" "snd v"]
      by auto
  qed
  have "?P (t', True)"
    using assms unfolding pasada_def
  proof (rule for_each_invariant[where P = ?P])
    show "?P (t, False)" by simp
  next
    fix x u v
    assume "?P u" "for_each (py_range (x + 1) estados) (paso2_par transiciones x) u = Inr v"
    then show "?P v" using inner by blast
  qed
  then show ?thesis by simp
qed

text \<open>
  The \<open>while cambiado\<close> loop, with the pass counter \<open>iteracion\<close> of the source. Every pass
  that sets \<open>cambiado\<close> turns at least one False entry into True, so the loop ends.
\<close>

function bucle :: "int \<Rightarrow> int list list \<Rightarrow> tabla \<Rightarrow> int \<Rightarrow> error + tabla \<times> int" where
  "bucle estados transiciones t iteracion =
     (case pasada estados transiciones t of Inl e \<Rightarrow> Inl e
      | Inr (t', cambiado) \<Rightarrow>
          if cambiado then bucle estados transiciones t' (iteracion + 1)
          else Inr (t', iteracion + 1))"
  by pat_completeness auto
termination
  by (relation "measure (\<lambda>(estados, transiciones, t, iteracion). pendientes t)")
     (auto dest: pasada_pendientes)

declare bucle.simps [simp del]

text \<open>
  The table after step 1 and step 2, together with the number of passes of the loop;
  \<open>crear_tabla_distinguibilidad\<close> returns the table.
\<close>

definition tabla_inicial :: "int \<Rightarrow> tabla" where
  "tabla_inicial estados = replicate (nat estados) (replicate (nat estados) False)"

definition propagar :: "int \<Rightarrow> int list \<Rightarrow> int list list \<Rightarrow> error + tabla \<times> int" where
  "propagar estados estados_finales transiciones =
     (case paso1 estados estados_finales (tabla_inicial estados) of Inl e \<Rightarrow> Inl e
      | Inr t \<Rightarrow> bucle estados transiciones t 0)"

definition crear_tabla_distinguibilidad :: "int \<Rightarrow> int list \<Rightarrow> int list list \<Rightarrow> error + tabla" where
  "crear_tabla_distinguibilidad estados estados_finales transiciones =
     (case propagar estados estados_finales transiciones of Inl e \<Rightarrow> Inl e
      | Inr (t, iteracion) \<Rightarrow> Inr t)"

subsection \<open>encontrar_pares_equivalentes\<close>

definition anotar_par :: "tabla \<Rightarrow> int \<Rightarrow> int \<Rightarrow> (int \<times> int) list \<Rightarrow> error + (int \<times> int) list" where
  "anotar_par t i j pares_equivalentes =
     (case tabla_get t i j of Inl e \<Rightarrow> Inl e
      | Inr marcado \<Rightarrow>
          if \<not> marcado then Inr (pares_equivalentes @ [(i, j)]) else Inr pares_equivalentes)"

definition encontrar_pares_equivalentes :: "int \<Rightarrow> tabla \<Rightarrow> error + (int \<times> int) list" where
  "encontrar_pares_equivalentes estados t =
     for_each (py_range 0 estados)
       (\<lambda>i. for_each (py_range (i + 1) estados) (anotar_par t i)) []"

section \<open>Notions used in the properties\<close>

text \<open>The pairs \<open>(i, j)\<close> in the order in which the two nested \<open>for\<close> loops visit them.\<close>

definition pares :: "int \<Rightarrow> (int \<times> int) list" where
  "pares estados = concat (map (\<lambda>i. map (Pair i) (py_range (i + 1) estados)) (py_range 0 estados))"

text \<open>The order "by \<open>i\<close>, then by \<open>j\<close>".\<close>

definition antes :: "int \<times> int \<Rightarrow> int \<times> int \<Rightarrow> bool" where
  "antes = (\<lambda>(a, b) (c, d). a < c \<or> (a = c \<and> b < d))"

text \<open>A table built over \<open>n\<close> states: \<open>n\<close> rows of \<open>n\<close> entries.\<close>

definition dimension :: "int \<Rightarrow> tabla \<Rightarrow> bool" where
  "dimension n t \<longleftrightarrow> length t = nat n \<and> (\<forall>fila \<in> set t. length fila = nat n)"

text \<open>\<open>tabla_le t t'\<close>: same shape, and every entry that is True in \<open>t\<close> is True in \<open>t'\<close>.\<close>

definition tabla_le :: "tabla \<Rightarrow> tabla \<Rightarrow> bool" where
  "tabla_le t t' \<longleftrightarrow>
     length t' = length t \<and>
     (\<forall>a < length t. length (t' ! a) = length (t ! a) \<and> (\<forall>b < length (t ! a). t ! a ! b \<longrightarrow> t' ! a ! b))"

text \<open>\<open>triangular t\<close>: an entry \<open>t[a][b]\<close> is True only when \<open>a < b\<close>.\<close>

definition triangular :: "tabla \<Rightarrow> bool" where
  "triangular t \<longleftrightarrow> (\<forall>a < length t. \<forall>b < length (t ! a). t ! a ! b \<longrightarrow> a < b)"

text \<open>
  Entries and writes by state number, and the test of the propagation rule: some symbol
  that both rows have leads to a pair that is marked (looked up with the smaller state
  first, as the source does after its swap).
\<close>

definition celda :: "tabla \<Rightarrow> int \<Rightarrow> int \<Rightarrow> bool" where
  "celda t i j = t ! nat i ! nat j"

definition marca :: "tabla \<Rightarrow> int \<Rightarrow> int \<Rightarrow> bool" where
  "marca t p q = (if p > q then celda t q p else celda t p q)"

definition marcar :: "tabla \<Rightarrow> int \<Rightarrow> int \<Rightarrow> tabla" where
  "marcar t i j = t[nat i := (t ! nat i)[nat j := True]]"

definition hay_marca :: "int list list \<Rightarrow> tabla \<Rightarrow> int \<Rightarrow> int \<Rightarrow> bool" where
  "hay_marca T t i j \<longleftrightarrow>
     (\<exists>s. s < length (T ! nat i) \<and> s < length (T ! nat j) \<and> marca t (T ! nat i ! s) (T ! nat j ! s))"

text \<open>A list of pairs \<open>(i, j)\<close> of states with \<open>i < j\<close>.\<close>

definition en_rango :: "int \<Rightarrow> (int \<times> int) list \<Rightarrow> bool" where
  "en_rango n ps \<longleftrightarrow> (\<forall>(i, j) \<in> set ps. 0 \<le> i \<and> i < j \<and> j < n)"

text \<open>
  The notion the specification uses, written from its words. An input string is a list
  of symbols (column numbers). It drives a state to the state reached by following the
  transitions; a state whose row lacks the next symbol has no transition on it, and the
  string then leads nowhere. A string is accepted from a state when it drives the state
  to a final state. Two states are distinguishable (Myhill and Nerode) when some string
  is accepted from one of them and not from the other.
\<close>

fun correr :: "int list list \<Rightarrow> int \<Rightarrow> nat list \<Rightarrow> int option" where
  "correr T q [] = Some q"
| "correr T q (a # w) =
     (if 0 \<le> q \<and> q < int (length T) \<and> a < length (T ! nat q)
      then correr T (T ! nat q ! a) w else None)"

definition acepta :: "int list list \<Rightarrow> int list \<Rightarrow> int \<Rightarrow> nat list \<Rightarrow> bool" where
  "acepta T F i w = (case correr T i w of Some p \<Rightarrow> p \<in> set F | None \<Rightarrow> False)"

definition distinguibles :: "int list list \<Rightarrow> int list \<Rightarrow> int \<Rightarrow> int \<Rightarrow> bool" where
  "distinguibles T F i j \<longleftrightarrow> (\<exists>w. acepta T F i w \<noteq> acepta T F j w)"

text \<open>
  The relation the loop of the source builds, which is not the specification's when rows
  differ in length: the pairs told apart by a string that both states can read to its
  end. It is used to state the invariant of the loop.
\<close>

definition separables :: "int list list \<Rightarrow> int list \<Rightarrow> int \<Rightarrow> int \<Rightarrow> bool" where
  "separables T F i j \<longleftrightarrow>
     (\<exists>w p q. correr T i w = Some p \<and> correr T j w = Some q \<and> (p \<in> set F) \<noteq> (q \<in> set F))"

text \<open>Every mark of the table is justified by a string read to its end from both states.\<close>

definition sana :: "int \<Rightarrow> int list \<Rightarrow> int list list \<Rightarrow> tabla \<Rightarrow> bool" where
  "sana n F T t \<longleftrightarrow> (\<forall>i j. 0 \<le> i \<and> i < j \<and> j < n \<and> celda t i j \<longrightarrow> separables T F i j)"

text \<open>The propagation rule applies to no unmarked pair.\<close>

definition cerrada :: "int \<Rightarrow> int list list \<Rightarrow> tabla \<Rightarrow> bool" where
  "cerrada n T t \<longleftrightarrow> (\<forall>i j. 0 \<le> i \<and> i < j \<and> j < n \<longrightarrow> celda t i j \<or> \<not> hay_marca T t i j)"

text \<open>What every pass keeps: the shape, the upper triangle, and justified marks.\<close>

definition inv_tabla :: "int \<Rightarrow> int list \<Rightarrow> int list list \<Rightarrow> tabla \<Rightarrow> bool" where
  "inv_tabla n F T t \<longleftrightarrow> dimension n t \<and> triangular t \<and> sana n F T t"

text \<open>All rows of the transition matrix have the same number of symbols.\<close>

definition filas_uniformes :: "int list list \<Rightarrow> bool" where
  "filas_uniformes T \<longleftrightarrow> (\<forall>fila \<in> set T. \<forall>fila' \<in> set T. length fila = length fila')"

text \<open>Agreement of two states on all strings up to a length.\<close>

definition iguales_hasta :: "nat \<Rightarrow> int list list \<Rightarrow> int list \<Rightarrow> int \<Rightarrow> int \<Rightarrow> bool" where
  "iguales_hasta k T F i j \<longleftrightarrow> (\<forall>w. length w \<le> k \<longrightarrow> acepta T F i w = acepta T F j w)"

text \<open>Level \<open>k\<close> is stable: strings of length \<open>k + 1\<close> tell no further pair of states apart.\<close>

definition estable :: "nat \<Rightarrow> int \<Rightarrow> int list list \<Rightarrow> int list \<Rightarrow> bool" where
  "estable k n T F \<longleftrightarrow>
     (\<forall>i j. 0 \<le> i \<and> i < n \<and> 0 \<le> j \<and> j < n \<and> iguales_hasta k T F i j
            \<longrightarrow> iguales_hasta (Suc k) T F i j)"

text \<open>
  The levels are counted by their classes: the states grouped by the set of strings of
  length at most \<open>k\<close> they accept. A level that adds something adds a class, and there
  are at most as many classes as states.
\<close>

definition firma :: "nat \<Rightarrow> int list list \<Rightarrow> int list \<Rightarrow> int \<Rightarrow> nat list \<Rightarrow> bool" where
  "firma k T F i = (\<lambda>w. length w \<le> k \<and> acepta T F i w)"

definition clases :: "nat \<Rightarrow> int \<Rightarrow> int list list \<Rightarrow> int list \<Rightarrow> nat" where
  "clases k n T F = card (firma k T F ` {0..<n})"

text \<open>The table holds every pair that a string of length at most \<open>k\<close> tells apart.\<close>

definition contiene_hasta :: "nat \<Rightarrow> int \<Rightarrow> int list \<Rightarrow> int list list \<Rightarrow> tabla \<Rightarrow> bool" where
  "contiene_hasta k n F T t \<longleftrightarrow>
     (\<forall>i j. 0 \<le> i \<and> i < j \<and> j < n \<and> \<not> iguales_hasta k T F i j \<longrightarrow> celda t i j)"

section \<open>Properties\<close>

subsection \<open>The nested loops as one loop over the pairs\<close>

lemma for_each_append:
  "for_each (xs @ ys) f s = (case for_each xs f s of Inl e \<Rightarrow> Inl e | Inr s' \<Rightarrow> for_each ys f s')"
  by (induction xs arbitrary: s) (auto split: sum.splits)

lemma for_each_map: "for_each (map h xs) f s = for_each xs (\<lambda>x. f (h x)) s"
  by (induction xs arbitrary: s) (auto split: sum.splits)

lemma for_each_concat:
  "for_each xs (\<lambda>i. for_each (g i) (f i)) s
   = for_each (concat (map (\<lambda>i. map (Pair i) (g i)) xs)) (\<lambda>(i, j). f i j) s"
  by (induction xs arbitrary: s) (auto simp: for_each_append for_each_map split: sum.splits)

lemma for_each_pares:
  "for_each (py_range 0 n) (\<lambda>i. for_each (py_range (i + 1) n) (f i)) s
   = for_each (pares n) (\<lambda>(i, j). f i j) s"
  unfolding pares_def by (rule for_each_concat)

lemma set_pares: "set (pares n) = {(i, j). 0 \<le> i \<and> i < j \<and> j < n}"
proof -
  have "(i, j) \<in> set (pares n) \<longleftrightarrow> 0 \<le> i \<and> i < j \<and> j < n" for i j
    by (auto simp: pares_def py_range_def image_iff)
  then show ?thesis by auto
qed

lemma sorted_pares_aux:
  "sorted_wrt (<) xs \<Longrightarrow>
   sorted_wrt antes (concat (map (\<lambda>i. map (Pair i) (py_range (i + 1) n)) xs))"
proof (induction xs)
  case Nil
  then show ?case by simp
next
  case (Cons x xs)
  have "sorted_wrt antes (map (Pair x) (py_range (x + 1) n))"
    by (simp add: sorted_wrt_map antes_def py_range_def sorted_wrt_upto)
  then show ?case using Cons
    by (auto simp: sorted_wrt_append antes_def)
qed

lemma sorted_pares: "sorted_wrt antes (pares n)"
  unfolding pares_def by (rule sorted_pares_aux) (simp add: py_range_def sorted_wrt_upto)


subsection \<open>Tables over a state count\<close>

lemma tabla_get_ok:
  assumes "dimension n t" "0 \<le> i" "i < n" "0 \<le> j" "j < n"
  shows "tabla_get t i j = Inr (t ! nat i ! nat j)"
proof -
  have "nat i < length t" using assms by (simp add: dimension_def)
  then have "length (t ! nat i) = nat n" using assms(1) by (simp add: dimension_def)
  then show ?thesis using assms by (simp add: tabla_get_def py_get_def dimension_def)
qed

subsection \<open>The validator\<close>

lemma finales_validos_iff: "finales_validos n F \<longleftrightarrow> (\<forall>e \<in> set F. 0 \<le> e \<and> e < n)"
  by (induction F) auto

lemma fila_valida_iff: "fila_valida n fila \<longleftrightarrow> (\<forall>d \<in> set fila. 0 \<le> d \<and> d < n)"
  by (induction fila) auto

lemma filas_validas_iff: "filas_validas n T \<longleftrightarrow> (\<forall>fila \<in> set T. \<forall>d \<in> set fila. 0 \<le> d \<and> d < n)"
  by (induction T) (auto simp: fila_valida_iff)

text \<open>
  Claim C2. \<open>validar_entrada\<close> returns False exactly when the state count is not positive,
  or a final state is outside \<open>[0, estados)\<close>, or the number of rows differs from the state
  count, or a transition target is outside \<open>[0, estados)\<close>; otherwise it returns True. The
  function only reads its arguments: it is a function of the triple to a truth value.
\<close>

theorem validar_entrada_falla_iff:
  "validar_entrada estados estados_finales transiciones = False \<longleftrightarrow>
     estados \<le> 0
   \<or> (\<exists>estado \<in> set estados_finales. estado < 0 \<or> estado \<ge> estados)
   \<or> int (length transiciones) \<noteq> estados
   \<or> (\<exists>fila \<in> set transiciones. \<exists>destino \<in> set fila. destino < 0 \<or> destino \<ge> estados)"
  unfolding validar_entrada_def finales_validos_iff filas_validas_iff
  by (auto simp: not_le not_less)

theorem validar_entrada_falla_iff_witness:
  "validar_entrada 2 [5] [[0, 1], [1, 0]] = False \<and> validar_entrada 2 [1] [[0, 1], [1, 0]] = True
   \<and> validar_entrada 2 [1] [[0, 1], [1, 2]] = False \<and> validar_entrada 2 [1] [[0, 1]] = False
   \<and> validar_entrada 0 [] [] = False"
  using validar_entrada_falla_iff[of 2 "[5]" "[[0, 1], [1, 0]]"]
    validar_entrada_falla_iff[of 2 "[1]" "[[0, 1], [1, 0]]"]
    validar_entrada_falla_iff[of 2 "[1]" "[[0, 1], [1, 2]]"]
    validar_entrada_falla_iff[of 2 "[1]" "[[0, 1]]"]
    validar_entrada_falla_iff[of 0 "[]" "[]"]
  by simp

subsection \<open>The extractor\<close>

lemma for_each_anotar:
  assumes "dimension n t" and "\<forall>(i, j) \<in> set ps. 0 \<le> i \<and> i < n \<and> 0 \<le> j \<and> j < n"
  shows "for_each ps (\<lambda>(i, j). anotar_par t i j) acc
         = Inr (acc @ filter (\<lambda>(i, j). \<not> t ! nat i ! nat j) ps)"
  using assms(2)
proof (induction ps arbitrary: acc)
  case Nil
  then show ?case by simp
next
  case (Cons p ps)
  obtain i j where p: "p = (i, j)" by (cases p)
  with Cons.prems have "tabla_get t i j = Inr (t ! nat i ! nat j)"
    using tabla_get_ok[OF assms(1)] by simp
  then show ?case using Cons p by (simp add: anotar_par_def)
qed

lemma encontrar_pares_equivalentes_eq:
  assumes "dimension n t"
  shows "encontrar_pares_equivalentes n t = Inr (filter (\<lambda>(i, j). \<not> t ! nat i ! nat j) (pares n))"
proof -
  have "\<forall>(i, j) \<in> set (pares n). 0 \<le> i \<and> i < n \<and> 0 \<le> j \<and> j < n"
    by (auto simp: set_pares)
  from for_each_anotar[OF assms this, of "[]"] show ?thesis
    by (simp add: encontrar_pares_equivalentes_def for_each_pares)
qed

text \<open>
  Claim C4. On a table built over \<open>estados\<close> states, \<open>encontrar_pares_equivalentes\<close> returns
  exactly the pairs \<open>(i, j)\<close> with \<open>0 \<le> i < j < estados\<close> that are not marked, ordered by
  \<open>i\<close> and then by \<open>j\<close>, and the empty list when every pair is marked.
\<close>

theorem encontrar_pares_equivalentes_exacto:
  assumes "dimension estados t"
  shows "\<exists>ps. encontrar_pares_equivalentes estados t = Inr ps
           \<and> set ps = {(i, j). 0 \<le> i \<and> i < j \<and> j < estados \<and> \<not> t ! nat i ! nat j}
           \<and> sorted_wrt antes ps
           \<and> ((\<forall>i j. 0 \<le> i \<and> i < j \<and> j < estados \<longrightarrow> t ! nat i ! nat j) \<longrightarrow> ps = [])"
proof -
  let ?ps = "filter (\<lambda>(i, j). \<not> t ! nat i ! nat j) (pares estados)"
  have "set ?ps = {(i, j). 0 \<le> i \<and> i < j \<and> j < estados \<and> \<not> t ! nat i ! nat j}"
    by (auto simp: set_pares)
  moreover have "sorted_wrt antes ?ps"
    by (rule sorted_wrt_filter) (rule sorted_pares)
  moreover have "(\<forall>i j. 0 \<le> i \<and> i < j \<and> j < estados \<longrightarrow> t ! nat i ! nat j) \<longrightarrow> ?ps = []"
    by (auto simp: filter_empty_conv set_pares)
  ultimately show ?thesis
    using encontrar_pares_equivalentes_eq[OF assms] by blast
qed

theorem encontrar_pares_equivalentes_exacto_witness:
  "dimension 3 [[False, False, True], [False, False, True], [False, False, False]]
   \<and> encontrar_pares_equivalentes 3 [[False, False, True], [False, False, True], [False, False, False]]
       = Inr [(0, 1)]"
proof -
  have d: "dimension 3 [[False, False, True], [False, False, True], [False, False, False]]"
    by (simp add: dimension_def)
  have e: "encontrar_pares_equivalentes 3 [[False, False, True], [False, False, True], [False, False, False]]
       = Inr [(0, 1)]"
    by code_simp
  from encontrar_pares_equivalentes_exacto[OF d] d e show ?thesis by simp
qed

text \<open>
  Claim C7. For 3 states, final state 2 and transitions \<open>[[0,1],[0,1],[2,2]]\<close>, the table
  built by \<open>crear_tabla_distinguibilidad\<close> gives, through \<open>encontrar_pares_equivalentes\<close>,
  the single pair \<open>(0, 1)\<close>.
\<close>

theorem escenario_A:
  "crear_tabla_distinguibilidad 3 [2] [[0, 1], [0, 1], [2, 2]]
     = Inr [[False, False, True], [False, False, True], [False, False, False]]
   \<and> encontrar_pares_equivalentes 3 [[False, False, True], [False, False, True], [False, False, False]]
     = Inr [(0, 1)]"
  by code_simp


subsection \<open>Writes to the table\<close>

lemma tabla_set_shape:
  assumes "tabla_set t i j = Inr t'"
  obtains a k where "a < length t" "k < length (t ! a)" "t' = t[a := (t ! a)[k := True]]"
    "0 \<le> i \<longrightarrow> a = nat i" "0 \<le> j \<longrightarrow> k = nat j"
proof -
  define a where "a = nat (if i < 0 then i + int (length t) else i)"
  define k where "k = nat (if j < 0 then j + int (length (t ! a)) else j)"
  from assms have ia: "a < length t" and gi: "py_get t i = Inr (t ! a)"
    by (auto simp: tabla_set_def py_get_def Let_def a_def split: sum.splits if_splits)
  from assms gi have jk: "k < length (t ! a)"
    by (auto simp: tabla_set_def py_set_def Let_def k_def split: if_splits sum.splits)
  from assms gi jk ia have "t' = t[a := (t ! a)[k := True]]"
    by (auto simp: tabla_set_def py_set_def Let_def k_def a_def split: if_splits sum.splits)
  then show ?thesis using that[of a k] ia jk by (simp add: a_def k_def)
qed

lemma tabla_le_refl: "tabla_le t t"
  by (simp add: tabla_le_def)

lemma tabla_le_trans: "tabla_le t u \<Longrightarrow> tabla_le u v \<Longrightarrow> tabla_le t v"
  by (simp add: tabla_le_def)

lemma tabla_set_le:
  assumes "tabla_set t i j = Inr t'"
  shows "tabla_le t t'"
proof -
  from assms obtain a k where "a < length t" "k < length (t ! a)" and t': "t' = t[a := (t ! a)[k := True]]"
    by (rule tabla_set_shape)
  then show ?thesis
    by (auto simp: tabla_le_def nth_list_update)
qed

lemma paso2_par_le:
  assumes "paso2_par transiciones i j (t, c) = Inr (t', c')"
  shows "tabla_le t t'"
  using assms
  by (auto simp: paso2_par_def tabla_le_refl split: sum.splits if_splits dest: tabla_set_le)

lemma for_each_paso2_le:
  assumes "for_each ps (\<lambda>(i, j). paso2_par transiciones i j) s = Inr s'"
  shows "tabla_le (fst s) (fst s')"
  using assms
proof (rule for_each_invariant[where P = "\<lambda>u. tabla_le (fst s) (fst u)"])
  show "tabla_le (fst s) (fst s)" by (rule tabla_le_refl)
next
  fix x u v
  assume "tabla_le (fst s) (fst u)" "(case x of (i, j) \<Rightarrow> paso2_par transiciones i j) u = Inr v"
  then show "tabla_le (fst s) (fst v)"
    using paso2_par_le[of transiciones "fst x" "snd x" "fst u" "snd u" "fst v" "snd v"]
    by (auto simp: case_prod_beta intro: tabla_le_trans)
qed

lemma pasada_le:
  assumes "pasada estados transiciones t = Inr (t', c)"
  shows "tabla_le t t'"
  using for_each_paso2_le[of "pares estados" transiciones "(t, False)" "(t', c)"] assms
  by (simp add: pasada_def for_each_pares)

lemma bucle_le:
  "bucle estados transiciones t iteracion = Inr (tf, itf) \<Longrightarrow> tabla_le t tf"
proof (induction estados transiciones t iteracion rule: bucle.induct)
  case (1 estados transiciones t iteracion)
  from "1.prems" obtain t' c where p: "pasada estados transiciones t = Inr (t', c)"
    by (subst (asm) bucle.simps) (auto split: sum.splits)
  show ?case
  proof (cases c)
    case True
    with p "1.prems" have "bucle estados transiciones t' (iteracion + 1) = Inr (tf, itf)"
      by (subst (asm) bucle.simps) simp
    with "1.IH"[OF p refl True] have "tabla_le t' tf" by simp
    with pasada_le[OF p] show ?thesis by (rule tabla_le_trans)
  next
    case False
    with p "1.prems" have "tf = t'"
      by (subst (asm) bucle.simps) simp
    with pasada_le[OF p] show ?thesis by simp
  qed
qed

text \<open>
  Claim C6. Every pass of the propagation loop keeps the shape of the table and every
  entry that was True before the pass: no entry goes from True to False.
\<close>

theorem pasada_monotona:
  assumes "pasada estados transiciones t = Inr (t', cambiado)"
  shows "length t' = length t \<and>
         (\<forall>a < length t. length (t' ! a) = length (t ! a) \<and>
            (\<forall>b < length (t ! a). t ! a ! b \<longrightarrow> t' ! a ! b))"
  using pasada_le[OF assms] by (simp add: tabla_le_def)

theorem pasada_monotona_witness:
  "pasada 4 [[2], [0, 0], [1, 3], []]
     [[False, False, False, True], [False, False, False, True], [False, False, False, True],
      [False, False, False, False]]
   = Inr ([[False, False, False, True], [False, False, True, True], [False, False, False, True],
      [False, False, False, False]], True)
   \<and> [[False, False, False, True], [False, False, False, True], [False, False, False, True],
      [False, False, False, False]] ! 2 ! 3
   \<and> [[False, False, False, True], [False, False, True, True], [False, False, False, True],
      [False, False, False, False]] ! 2 ! 3"
proof -
  have e: "pasada 4 [[2], [0, 0], [1, 3], []]
     [[False, False, False, True], [False, False, False, True], [False, False, False, True],
      [False, False, False, False]]
   = Inr ([[False, False, False, True], [False, False, True, True], [False, False, False, True],
      [False, False, False, False]], True)"
    by code_simp
  have b: "[[False, False, False, True], [False, False, False, True], [False, False, False, True],
      [False, False, False, False]] ! 2 ! 3"
    by simp
  from pasada_monotona[OF e] have "\<forall>b < 4. [[False, False, False, True], [False, False, False, True],
      [False, False, False, True], [False, False, False, False]] ! 2 ! b
    \<longrightarrow> [[False, False, False, True], [False, False, True, True], [False, False, False, True],
      [False, False, False, False]] ! 2 ! b"
    by simp
  with b e show ?thesis by simp
qed

subsection \<open>Only the upper triangle is written\<close>

lemma triangular_inicial: "triangular (tabla_inicial estados)"
  by (simp add: triangular_def tabla_inicial_def)

lemma tabla_set_triangular:
  assumes "tabla_set t i j = Inr t'" "triangular t" "0 \<le> i" "i < j"
  shows "triangular t'"
proof -
  from assms(1) obtain a k where ak: "a < length t" "k < length (t ! a)"
    and t': "t' = t[a := (t ! a)[k := True]]" and "0 \<le> i \<longrightarrow> a = nat i" "0 \<le> j \<longrightarrow> k = nat j"
    by (rule tabla_set_shape)
  with assms(3,4) have "a < k" by simp
  with assms(2) ak show ?thesis
    unfolding t' triangular_def by (auto simp: nth_list_update split: if_splits)
qed

lemma paso1_par_triangular:
  assumes "paso1_par estados_finales i j t = Inr t'" "triangular t" "0 \<le> i" "i < j"
  shows "triangular t'"
  using assms by (auto simp: paso1_par_def split: if_splits dest: tabla_set_triangular)

lemma paso2_par_triangular:
  assumes "paso2_par transiciones i j (t, c) = Inr (t', c')" "triangular t" "0 \<le> i" "i < j"
  shows "triangular t'"
  using assms
  by (auto simp: paso2_par_def split: sum.splits if_splits dest: tabla_set_triangular)

lemma paso1_triangular:
  assumes "paso1 estados estados_finales t = Inr t'" "triangular t"
  shows "triangular t'"
proof -
  from assms(1) have "for_each (pares estados) (\<lambda>(i, j). paso1_par estados_finales i j) t = Inr t'"
    by (simp add: paso1_def for_each_pares)
  then show ?thesis
  proof (rule for_each_invariant[where P = triangular])
    show "triangular t" by (rule assms(2))
  next
    fix x u v
    assume "x \<in> set (pares estados)" "triangular u"
      "(case x of (i, j) \<Rightarrow> paso1_par estados_finales i j) u = Inr v"
    then show "triangular v"
      using paso1_par_triangular[of estados_finales "fst x" "snd x" u v]
      by (auto simp: set_pares)
  qed
qed

lemma pasada_triangular:
  assumes "pasada estados transiciones t = Inr (t', c)" "triangular t"
  shows "triangular t'"
proof -
  from assms(1) have "for_each (pares estados) (\<lambda>(i, j). paso2_par transiciones i j) (t, False) = Inr (t', c)"
    by (simp add: pasada_def for_each_pares)
  then have "triangular (fst (t', c))"
  proof (rule for_each_invariant[where P = "\<lambda>u. triangular (fst u)"])
    show "triangular (fst (t, False))" using assms(2) by simp
  next
    fix x u v
    assume "x \<in> set (pares estados)" "triangular (fst u)"
      "(case x of (i, j) \<Rightarrow> paso2_par transiciones i j) u = Inr v"
    then show "triangular (fst v)"
      using paso2_par_triangular[of transiciones "fst x" "snd x" "fst u" "snd u" "fst v" "snd v"]
      by (auto simp: set_pares)
  qed
  then show ?thesis by simp
qed

lemma bucle_triangular:
  "bucle estados transiciones t iteracion = Inr (tf, itf) \<Longrightarrow> triangular t \<Longrightarrow> triangular tf"
proof (induction estados transiciones t iteracion rule: bucle.induct)
  case (1 estados transiciones t iteracion)
  from "1.prems"(1) obtain t' c where p: "pasada estados transiciones t = Inr (t', c)"
    by (subst (asm) bucle.simps) (auto split: sum.splits)
  have t': "triangular t'" using pasada_triangular[OF p "1.prems"(2)] .
  show ?case
  proof (cases c)
    case True
    with p "1.prems"(1) have "bucle estados transiciones t' (iteracion + 1) = Inr (tf, itf)"
      by (subst (asm) bucle.simps) simp
    with "1.IH"[OF p refl True] t' show ?thesis by simp
  next
    case False
    with p "1.prems"(1) have "tf = t'"
      by (subst (asm) bucle.simps) simp
    with t' show ?thesis by simp
  qed
qed

lemma crear_tabla_triangular:
  assumes "crear_tabla_distinguibilidad estados estados_finales transiciones = Inr t"
  shows "triangular t"
proof -
  from assms obtain t0 it
    where a: "paso1 estados estados_finales (tabla_inicial estados) = Inr t0"
      and b: "bucle estados transiciones t0 0 = Inr (t, it)"
    by (auto simp: crear_tabla_distinguibilidad_def propagar_def split: sum.splits)
  from paso1_triangular[OF a triangular_inicial] bucle_triangular[OF b] show ?thesis by simp
qed

lemma diagonal_falsa:
  assumes "triangular t" "0 \<le> p"
  shows "tabla_get t p p \<noteq> Inr True"
proof
  assume g: "tabla_get t p p = Inr True"
  with assms(2) have "nat p < length t" "nat p < length (t ! nat p)" "t ! nat p ! nat p"
    by (auto simp: tabla_get_def py_get_def Let_def split: sum.splits if_splits)
  with assms(1) have "nat p < nat p" unfolding triangular_def by blast
  then show False by simp
qed

text \<open>
  Claim C9. An entry \<open>tabla[a][b]\<close> is True only when \<open>a < b\<close>: this holds for the initial
  table, is kept by every write of step 1 and of step 2 (which are made at pairs with
  \<open>0 \<le> i < j\<close>), hence by every pass, and holds for the table returned. So the lookup
  \<open>tabla[p][p]\<close>, which the propagation makes when both transitions lead to the same
  state \<open>p\<close>, never yields True.
\<close>

theorem tabla_siempre_triangular:
  "triangular (tabla_inicial estados)
   \<and> (triangular t \<and> 0 \<le> i \<and> i < j \<and> paso1_par estados_finales i j t = Inr t' \<longrightarrow> triangular t')
   \<and> (triangular t \<and> 0 \<le> i \<and> i < j \<and> paso2_par transiciones i j (t, c) = Inr (t', c')
        \<longrightarrow> triangular t')
   \<and> (triangular t \<and> pasada estados transiciones t = Inr (t', c') \<longrightarrow> triangular t')
   \<and> (crear_tabla_distinguibilidad estados estados_finales transiciones = Inr tf
        \<longrightarrow> triangular tf \<and> (\<forall>p \<ge> 0. tabla_get tf p p \<noteq> Inr True))
   \<and> (triangular t \<and> 0 \<le> p \<longrightarrow> tabla_get t p p \<noteq> Inr True)"
proof (intro conjI impI)
  show "triangular (tabla_inicial estados)" by (rule triangular_inicial)
next
  assume "triangular t \<and> 0 \<le> i \<and> i < j \<and> paso1_par estados_finales i j t = Inr t'"
  then show "triangular t'" using paso1_par_triangular by blast
next
  assume "triangular t \<and> 0 \<le> i \<and> i < j \<and> paso2_par transiciones i j (t, c) = Inr (t', c')"
  then show "triangular t'" using paso2_par_triangular by blast
next
  assume "triangular t \<and> pasada estados transiciones t = Inr (t', c')"
  then show "triangular t'" using pasada_triangular by blast
next
  assume a: "crear_tabla_distinguibilidad estados estados_finales transiciones = Inr tf"
  then show "triangular tf" by (rule crear_tabla_triangular)
  then show "\<forall>p \<ge> 0. tabla_get tf p p \<noteq> Inr True" using diagonal_falsa by blast
next
  assume "triangular t \<and> 0 \<le> p"
  then show "tabla_get t p p \<noteq> Inr True" using diagonal_falsa by blast
qed


theorem tabla_siempre_triangular_witness:
  "crear_tabla_distinguibilidad 3 [2] [[0, 1], [0, 1], [2, 2]]
     = Inr [[False, False, True], [False, False, True], [False, False, False]]
   \<and> triangular [[False, False, True], [False, False, True], [False, False, False]]
   \<and> paso1_par [2] 0 1 [[False, False, True], [False, False, True], [False, False, False]]
     = Inr [[False, False, True], [False, False, True], [False, False, False]]
   \<and> paso2_par [[0, 1], [0, 1], [2, 2]] 0 1
       ([[False, False, True], [False, False, True], [False, False, False]], False)
     = Inr ([[False, False, True], [False, False, True], [False, False, False]], False)
   \<and> pasada 3 [[0, 1], [0, 1], [2, 2]] [[False, False, True], [False, False, True], [False, False, False]]
     = Inr ([[False, False, True], [False, False, True], [False, False, False]], False)
   \<and> tabla_get [[False, False, True], [False, False, True], [False, False, False]] 0 0 \<noteq> Inr True"
proof -
  let ?T = "[[0, 1], [0, 1], [2, 2]] :: int list list"
  let ?t = "[[False, False, True], [False, False, True], [False, False, False]]"
  have e1: "crear_tabla_distinguibilidad 3 [2] ?T = Inr ?t" by code_simp
  have e2: "paso1_par [2] 0 1 ?t = Inr ?t" by code_simp
  have e3: "paso2_par ?T 0 1 (?t, False) = Inr (?t, False)" by code_simp
  have e4: "pasada 3 ?T ?t = Inr (?t, False)" by code_simp
  note th = tabla_siempre_triangular[of 3 ?t 0 1 "[2]" ?t ?T False False ?t 0]
  from th e1 have tr: "triangular ?t" by blast
  from th tr have "tabla_get ?t 0 0 \<noteq> Inr True" by simp
  with e1 e2 e3 e4 tr show ?thesis by simp
qed


subsection \<open>The steps on a validated automaton\<close>

lemma validar_entrada_D:
  assumes "validar_entrada n F T"
  shows "0 < n" "length T = nat n" "\<forall>e \<in> set F. 0 \<le> e \<and> e < n"
    "\<forall>fila \<in> set T. \<forall>d \<in> set fila. 0 \<le> d \<and> d < n"
  using assms
  by (auto simp: validar_entrada_def finales_validos_iff filas_validas_iff split: if_splits)

lemma destino_rango:
  assumes "validar_entrada n F T" "0 \<le> i" "i < n" "s < length (T ! nat i)"
  shows "0 \<le> T ! nat i ! s \<and> T ! nat i ! s < n"
proof -
  have "nat i < length T" using assms validar_entrada_D(2)[OF assms(1)] by simp
  then have "T ! nat i \<in> set T" by simp
  moreover have "T ! nat i ! s \<in> set (T ! nat i)" using assms(4) by simp
  ultimately show ?thesis using validar_entrada_D(4)[OF assms(1)] by blast
qed

lemma fila_get:
  assumes "validar_entrada n F T" "0 \<le> i" "i < n"
  shows "py_get T i = Inr (T ! nat i)"
  using assms validar_entrada_D(2)[OF assms(1)] by (simp add: py_get_def)

lemma celda_get:
  assumes "dimension n t" "0 \<le> i" "i < n" "0 \<le> j" "j < n"
  shows "tabla_get t i j = Inr (celda t i j)"
  using tabla_get_ok[OF assms] by (simp add: celda_def)

lemma marca_get:
  assumes "dimension n t" "0 \<le> p" "p < n" "0 \<le> q" "q < n"
  shows "(if p > q then tabla_get t q p else tabla_get t p q) = Inr (marca t p q)"
  using assms by (simp add: marca_def celda_get)

lemma tabla_set_ok:
  assumes "dimension n t" "0 \<le> i" "i < n" "0 \<le> j" "j < n"
  shows "tabla_set t i j = Inr (marcar t i j)"
proof -
  have a: "nat i < length t" using assms by (simp add: dimension_def)
  then have "length (t ! nat i) = nat n" using assms(1) by (simp add: dimension_def)
  then show ?thesis using assms a
    by (simp add: tabla_set_def py_get_def py_set_def marcar_def)
qed

lemma dimension_marcar:
  assumes "dimension n t"
  shows "dimension n (marcar t i j)"
proof (cases "nat i < length t")
  case True
  then have len: "length ((t ! nat i)[nat j := True]) = nat n"
    using assms by (simp add: dimension_def)
  have "length fila = nat n" if "fila \<in> set (marcar t i j)" for fila
  proof -
    from that have "fila \<in> insert ((t ! nat i)[nat j := True]) (set t)"
      unfolding marcar_def using set_update_subset_insert by fastforce
    then show ?thesis using len assms by (auto simp: dimension_def)
  qed
  then show ?thesis using assms by (simp add: dimension_def marcar_def)
next
  case False
  then have "marcar t i j = t" by (simp add: marcar_def list_update_beyond not_less)
  then show ?thesis using assms by simp
qed

lemma celda_marcar:
  assumes "dimension n t" "0 \<le> i" "i < n" "0 \<le> j" "j < n" "0 \<le> a" "a < n" "0 \<le> b" "b < n"
  shows "celda (marcar t i j) a b \<longleftrightarrow> celda t a b \<or> (a = i \<and> b = j)"
proof -
  have "nat i < length t" "nat a < length t" using assms by (simp_all add: dimension_def)
  moreover from this have "nat j < length (t ! nat i)" "nat b < length (t ! nat a)"
    using assms by (simp_all add: dimension_def)
  ultimately show ?thesis using assms(2,4,6,8)
    by (auto simp: celda_def marcar_def nth_list_update eq_nat_nat_iff split: if_splits)
qed

lemma buscar_simbolo_ok:
  assumes "validar_entrada n F T" "dimension n t" "0 \<le> i" "i < n" "0 \<le> j" "j < n"
    and "\<forall>s \<in> set ss. 0 \<le> s \<and> s < int (length (T ! nat i))"
  shows "buscar_simbolo T t i j ss
         = Inr (\<exists>s \<in> set ss. s < int (length (T ! nat j))
                  \<and> marca t (T ! nat i ! nat s) (T ! nat j ! nat s))"
  using assms(7)
proof (induction ss)
  case Nil
  then show ?case by simp
next
  case (Cons s ss)
  have gi: "py_get T i = Inr (T ! nat i)" and gj: "py_get T j = Inr (T ! nat j)"
    using assms by (simp_all add: fila_get)
  have s: "0 \<le> s" "nat s < length (T ! nat i)" using Cons.prems by auto
  have IH: "buscar_simbolo T t i j ss
         = Inr (\<exists>s \<in> set ss. s < int (length (T ! nat j))
                  \<and> marca t (T ! nat i ! nat s) (T ! nat j ! nat s))"
    using Cons by simp
  show ?case
  proof (cases "s \<ge> int (length (T ! nat j))")
    case True
    then show ?thesis using gj IH by auto
  next
    case False
    then have sj: "nat s < length (T ! nat j)" using s by simp
    have p: "py_get (T ! nat i) s = Inr (T ! nat i ! nat s)"
      and q: "py_get (T ! nat j) s = Inr (T ! nat j ! nat s)"
      using s sj by (simp_all add: py_get_def)
    have "(if T ! nat i ! nat s > T ! nat j ! nat s
           then tabla_get t (T ! nat j ! nat s) (T ! nat i ! nat s)
           else tabla_get t (T ! nat i ! nat s) (T ! nat j ! nat s))
          = Inr (marca t (T ! nat i ! nat s) (T ! nat j ! nat s))"
      using destino_rango[OF assms(1,3,4) s(2)] destino_rango[OF assms(1,5,6) sj]
      by (intro marca_get[OF assms(2)]) simp_all
    then show ?thesis using gi gj p q IH False by auto
  qed
qed

lemma hay_marca_rango:
  "(\<exists>s \<in> set (py_range 0 (int (length (T ! nat i)))). s < int (length (T ! nat j))
        \<and> marca t (T ! nat i ! nat s) (T ! nat j ! nat s))
   \<longleftrightarrow> hay_marca T t i j"
proof
  assume "\<exists>s \<in> set (py_range 0 (int (length (T ! nat i)))). s < int (length (T ! nat j))
        \<and> marca t (T ! nat i ! nat s) (T ! nat j ! nat s)"
  then obtain s where "0 \<le> s" "s < int (length (T ! nat i))" "s < int (length (T ! nat j))"
    "marca t (T ! nat i ! nat s) (T ! nat j ! nat s)"
    by (auto simp: py_range_def)
  then show "hay_marca T t i j"
    unfolding hay_marca_def by (intro exI[of _ "nat s"]) (simp add: nat_less_iff)
next
  assume "hay_marca T t i j"
  then obtain s where "s < length (T ! nat i)" "s < length (T ! nat j)"
    "marca t (T ! nat i ! s) (T ! nat j ! s)"
    by (auto simp: hay_marca_def)
  then show "\<exists>s \<in> set (py_range 0 (int (length (T ! nat i)))). s < int (length (T ! nat j))
        \<and> marca t (T ! nat i ! nat s) (T ! nat j ! nat s)"
    by (intro bexI[of _ "int s"]) (simp_all add: py_range_def)
qed

lemma paso2_par_ok:
  assumes "validar_entrada n F T" "dimension n t" "0 \<le> i" "i < n" "0 \<le> j" "j < n"
  shows "paso2_par T i j (t, c)
         = Inr (if celda t i j then (t, c)
                else if hay_marca T t i j then (marcar t i j, True) else (t, c))"
proof -
  have "buscar_simbolo T t i j (py_range 0 (int (length (T ! nat i)))) = Inr (hay_marca T t i j)"
    using buscar_simbolo_ok[OF assms, of "py_range 0 (int (length (T ! nat i)))"]
    by (simp add: hay_marca_rango) (simp add: py_range_def)
  then show ?thesis
    using celda_get[OF assms(2-6)] tabla_set_ok[OF assms(2-6)] fila_get[OF assms(1,3,4)]
    by (simp add: paso2_par_def)
qed

lemma paso1_par_ok:
  assumes "dimension n t" "0 \<le> i" "i < n" "0 \<le> j" "j < n"
  shows "paso1_par F i j t = Inr (if (i \<in> set F) \<noteq> (j \<in> set F) then marcar t i j else t)"
  using tabla_set_ok[OF assms] by (simp add: paso1_par_def)


subsection \<open>Passes on a validated automaton\<close>

lemma en_rango_pares: "en_rango n (pares n)"
  by (auto simp: en_rango_def set_pares)

lemma en_rango_Cons: "en_rango n ((i, j) # ps) \<longleftrightarrow> 0 \<le> i \<and> i < j \<and> j < n \<and> en_rango n ps"
  by (auto simp: en_rango_def)

lemma tabla_le_dimension: "tabla_le t t' \<Longrightarrow> dimension n t \<Longrightarrow> dimension n t'"
  unfolding tabla_le_def dimension_def by (metis in_set_conv_nth nth_mem)

lemma tabla_le_celda:
  assumes "tabla_le t t'" "dimension n t" "0 \<le> a" "a < n" "0 \<le> b" "b < n" "celda t a b"
  shows "celda t' a b"
proof -
  have "nat a < length t" using assms by (simp add: dimension_def)
  moreover from this have "nat b < length (t ! nat a)" using assms by (simp add: dimension_def)
  ultimately show ?thesis using assms(1,7) by (simp add: tabla_le_def celda_def)
qed

lemma tabla_le_marca:
  assumes "tabla_le t t'" "dimension n t" "0 \<le> p" "p < n" "0 \<le> q" "q < n" "marca t p q"
  shows "marca t' p q"
  using assms tabla_le_celda[OF assms(1,2)] by (auto simp: marca_def split: if_splits)

lemma tabla_le_hay_marca:
  assumes "validar_entrada n F T" "tabla_le t t'" "dimension n t"
    "0 \<le> i" "i < n" "0 \<le> j" "j < n" "hay_marca T t i j"
  shows "hay_marca T t' i j"
proof -
  from assms(8) obtain s where s: "s < length (T ! nat i)" "s < length (T ! nat j)"
    "marca t (T ! nat i ! s) (T ! nat j ! s)"
    by (auto simp: hay_marca_def)
  have "marca t' (T ! nat i ! s) (T ! nat j ! s)"
    using destino_rango[OF assms(1,4,5) s(1)] destino_rango[OF assms(1,6,7) s(2)] s(3)
    by (intro tabla_le_marca[OF assms(2,3)]) simp_all
  with s show ?thesis by (auto simp: hay_marca_def)
qed

text \<open>The loop over the pairs always returns on a validated automaton.\<close>

lemma for_each_paso2_total:
  assumes "validar_entrada n F T" "dimension n t" "en_rango n ps"
  shows "\<exists>t' c'. for_each ps (\<lambda>(i, j). paso2_par T i j) (t, c) = Inr (t', c') \<and> dimension n t'"
  using assms(2,3)
proof (induction ps arbitrary: t c)
  case Nil
  then show ?case by simp
next
  case (Cons x ps)
  obtain i j where x: "x = (i, j)" by (cases x)
  with Cons.prems have r: "0 \<le> i" "i < n" "0 \<le> j" "j < n" and ps: "en_rango n ps"
    by (auto simp: en_rango_Cons)
  obtain t1 c1 where s: "paso2_par T i j (t, c) = Inr (t1, c1)" and d: "dimension n t1"
    using paso2_par_ok[OF assms(1) Cons.prems(1) r, of c] Cons.prems(1)
    by (auto simp: dimension_marcar split: if_splits)
  from Cons.IH[OF d ps, of c1] s x show ?case by simp
qed

text \<open>A pass that reports no change has changed nothing, and the rule applies nowhere.\<close>

lemma for_each_paso2_sin_cambio:
  assumes "validar_entrada n F T" "dimension n t" "en_rango n ps"
    "for_each ps (\<lambda>(i, j). paso2_par T i j) (t, c) = Inr (t', False)"
  shows "t' = t \<and> \<not> c \<and> (\<forall>(i, j) \<in> set ps. celda t i j \<or> \<not> hay_marca T t i j)"
  using assms(2,3,4)
proof (induction ps arbitrary: t c)
  case Nil
  then show ?case by simp
next
  case (Cons x ps)
  obtain i j where x: "x = (i, j)" by (cases x)
  with Cons.prems have r: "0 \<le> i" "i < n" "0 \<le> j" "j < n" and ps: "en_rango n ps"
    by (auto simp: en_rango_Cons)
  note ok = paso2_par_ok[OF assms(1) Cons.prems(1) r, of c]
  obtain t1 c1 where s: "paso2_par T i j (t, c) = Inr (t1, c1)" and d: "dimension n t1"
    using ok Cons.prems(1) by (auto simp: dimension_marcar split: if_splits)
  from Cons.prems(3) s x have "for_each ps (\<lambda>(i, j). paso2_par T i j) (t1, c1) = Inr (t', False)"
    by simp
  from Cons.IH[OF d ps this]
  have IH: "t' = t1" "\<not> c1" "\<forall>(i, j) \<in> set ps. celda t1 i j \<or> \<not> hay_marca T t1 i j"
    by auto
  from s ok IH(2) have "t1 = t \<and> c1 = c \<and> (celda t i j \<or> \<not> hay_marca T t i j)"
    by (auto split: if_splits)
  with IH x show ?case by auto
qed

text \<open>Where the rule applies nowhere, a pass changes nothing.\<close>

lemma for_each_paso2_cerrada:
  assumes "validar_entrada n F T" "dimension n t" "en_rango n ps"
    "\<forall>(i, j) \<in> set ps. celda t i j \<or> \<not> hay_marca T t i j"
  shows "for_each ps (\<lambda>(i, j). paso2_par T i j) (t, c) = Inr (t, c)"
  using assms(3,4)
proof (induction ps)
  case Nil
  then show ?case by simp
next
  case (Cons x ps)
  obtain i j where x: "x = (i, j)" by (cases x)
  with Cons.prems have r: "0 \<le> i" "i < n" "0 \<le> j" "j < n" and ps: "en_rango n ps"
    by (auto simp: en_rango_Cons)
  from Cons.prems(2) x have "celda t i j \<or> \<not> hay_marca T t i j" by simp
  then have "paso2_par T i j (t, c) = Inr (t, c)"
    using paso2_par_ok[OF assms(1,2) r, of c] by auto
  then show ?case using Cons.IH[OF ps] Cons.prems(2) x by simp
qed

text \<open>After a pass, every pair to which the rule applied before the pass is marked.\<close>

lemma for_each_paso2_avance:
  assumes "validar_entrada n F T" "dimension n t" "en_rango n ps"
    "for_each ps (\<lambda>(i, j). paso2_par T i j) (t, c) = Inr (t', c')"
  shows "\<forall>(i, j) \<in> set ps. hay_marca T t i j \<longrightarrow> celda t' i j"
  using assms(2,3,4)
proof (induction ps arbitrary: t c)
  case Nil
  then show ?case by simp
next
  case (Cons x ps)
  obtain i j where x: "x = (i, j)" by (cases x)
  with Cons.prems have r: "0 \<le> i" "i < n" "0 \<le> j" "j < n" and ps: "en_rango n ps"
    by (auto simp: en_rango_Cons)
  note ok = paso2_par_ok[OF assms(1) Cons.prems(1) r, of c]
  obtain t1 c1 where s: "paso2_par T i j (t, c) = Inr (t1, c1)" and d: "dimension n t1"
    using ok Cons.prems(1) by (auto simp: dimension_marcar split: if_splits)
  from Cons.prems(3) s x have rest: "for_each ps (\<lambda>(i, j). paso2_par T i j) (t1, c1) = Inr (t', c')"
    by simp
  have le1: "tabla_le t t1" using paso2_par_le[OF s] .
  have le2: "tabla_le t1 t'" using for_each_paso2_le[OF rest] by simp
  have head: "celda t' i j" if "hay_marca T t i j"
  proof -
    from that s ok have "celda t1 i j"
      using celda_marcar[OF Cons.prems(1) r r] by (auto split: if_splits)
    then show ?thesis using tabla_le_celda[OF le2 d r] by simp
  qed
  have tail: "celda t' a b" if "(a, b) \<in> set ps" "hay_marca T t a b" for a b
  proof -
    from that(1) ps have ab: "0 \<le> a" "a < n" "0 \<le> b" "b < n" by (auto simp: en_rango_def)
    have "hay_marca T t1 a b"
      using tabla_le_hay_marca[OF assms(1) le1 Cons.prems(1) ab that(2)] .
    with Cons.IH[OF d ps rest] that(1) show ?thesis by auto
  qed
  from head tail x show ?case by auto
qed


subsection \<open>Strings read from both states\<close>

lemma separables_sym: "separables T F i j \<Longrightarrow> separables T F j i"
  unfolding separables_def by metis

lemma separables_paso:
  assumes "0 \<le> i" "i < int (length T)" "0 \<le> j" "j < int (length T)"
    "s < length (T ! nat i)" "s < length (T ! nat j)"
    "separables T F (T ! nat i ! s) (T ! nat j ! s)"
  shows "separables T F i j"
proof -
  from assms(7) obtain w p q where "correr T (T ! nat i ! s) w = Some p"
    "correr T (T ! nat j ! s) w = Some q" "(p \<in> set F) \<noteq> (q \<in> set F)"
    by (auto simp: separables_def)
  then have "correr T i (s # w) = Some p \<and> correr T j (s # w) = Some q \<and> (p \<in> set F) \<noteq> (q \<in> set F)"
    using assms by simp
  then show ?thesis unfolding separables_def by blast
qed

lemma triangular_celda:
  assumes "triangular t" "dimension n t" "0 \<le> a" "a < n" "0 \<le> b" "b < n" "celda t a b"
  shows "a < b"
proof -
  have "nat a < length t" using assms by (simp add: dimension_def)
  moreover from this have "nat b < length (t ! nat a)" using assms by (simp add: dimension_def)
  ultimately have "nat a < nat b" using assms(1,7) unfolding triangular_def celda_def by blast
  then show ?thesis using assms(3,5) by simp
qed

lemma marca_separables:
  assumes "sana n F T t" "triangular t" "dimension n t" "0 \<le> p" "p < n" "0 \<le> q" "q < n"
    "marca t p q"
  shows "separables T F p q"
proof (cases "p > q")
  case True
  with assms(8) have c: "celda t q p" by (simp add: marca_def)
  with assms(1) True assms(6,5) have "separables T F q p" unfolding sana_def by blast
  then show ?thesis by (rule separables_sym)
next
  case False
  with assms(8) have c: "celda t p q" by (simp add: marca_def)
  from triangular_celda[OF assms(2,3,4,5,6,7) c] have "p < q" .
  with assms(1) c assms(4,7) show ?thesis unfolding sana_def by blast
qed

lemma hay_marca_separables:
  assumes "validar_entrada n F T" "sana n F T t" "triangular t" "dimension n t"
    "0 \<le> i" "i < n" "0 \<le> j" "j < n" "hay_marca T t i j"
  shows "separables T F i j"
proof -
  from assms(9) obtain s where s: "s < length (T ! nat i)" "s < length (T ! nat j)"
    "marca t (T ! nat i ! s) (T ! nat j ! s)"
    by (auto simp: hay_marca_def)
  have "separables T F (T ! nat i ! s) (T ! nat j ! s)"
    using destino_rango[OF assms(1,5,6) s(1)] destino_rango[OF assms(1,7,8) s(2)] s(3)
    by (intro marca_separables[OF assms(2,3,4)]) simp_all
  moreover have "i < int (length T)" "j < int (length T)"
    using validar_entrada_D(2)[OF assms(1)] assms(6,8) by simp_all
  ultimately show ?thesis using separables_paso[OF assms(5) _ assms(7) _ s(1,2)] by blast
qed

lemma paso2_par_sana:
  assumes "validar_entrada n F T" "sana n F T t" "triangular t" "dimension n t"
    "0 \<le> i" "i < j" "j < n" "paso2_par T i j (t, c) = Inr (t', c')"
  shows "sana n F T t'"
proof -
  have r: "0 \<le> i" "i < n" "0 \<le> j" "j < n" using assms(5,6,7) by simp_all
  note ok = paso2_par_ok[OF assms(1,4) r, of c]
  show ?thesis
  proof (cases "\<not> celda t i j \<and> hay_marca T t i j")
    case True
    with ok assms(8) have t': "t' = marcar t i j" by simp
    have d: "separables T F i j"
      using hay_marca_separables[OF assms(1,2,3,4) r] True by simp
    show ?thesis unfolding sana_def
    proof (intro allI impI)
      fix a b
      assume ab: "0 \<le> a \<and> a < b \<and> b < n \<and> celda t' a b"
      then have "celda t a b \<or> (a = i \<and> b = j)"
        using celda_marcar[OF assms(4) r, of a b] t' by simp
      then show "separables T F a b"
        using d assms(2) ab unfolding sana_def by blast
    qed
  next
    case False
    with ok assms(8) have "t' = t" by (auto split: if_splits)
    then show ?thesis using assms(2) by simp
  qed
qed


subsection \<open>The invariant of the loop\<close>

lemma pasada_total:
  assumes "validar_entrada n F T" "dimension n t"
  shows "\<exists>t' c. pasada n T t = Inr (t', c)"
  using for_each_paso2_total[OF assms en_rango_pares, of False]
  by (auto simp: pasada_def for_each_pares)

lemma pasada_inv:
  assumes "validar_entrada n F T" "inv_tabla n F T t" "pasada n T t = Inr (t', c)"
  shows "inv_tabla n F T t'"
proof -
  from assms(3) have "for_each (pares n) (\<lambda>(i, j). paso2_par T i j) (t, False) = Inr (t', c)"
    by (simp add: pasada_def for_each_pares)
  then have "inv_tabla n F T (fst (t', c))"
  proof (rule for_each_invariant[where P = "\<lambda>u. inv_tabla n F T (fst u)"])
    show "inv_tabla n F T (fst (t, False))" using assms(2) by simp
  next
    fix x u v
    assume x: "x \<in> set (pares n)" and u: "inv_tabla n F T (fst u)"
      and s: "(case x of (i, j) \<Rightarrow> paso2_par T i j) u = Inr v"
    obtain i j where xij: "x = (i, j)" by (cases x)
    with x have r: "0 \<le> i" "i < j" "j < n" by (auto simp: set_pares)
    from s xij have s': "paso2_par T i j (fst u, snd u) = Inr (fst v, snd v)" by simp
    from u have d: "dimension n (fst u)" and tr: "triangular (fst u)" and sa: "sana n F T (fst u)"
      by (simp_all add: inv_tabla_def)
    have "dimension n (fst v)" using tabla_le_dimension[OF paso2_par_le[OF s'] d] .
    moreover have "triangular (fst v)" using paso2_par_triangular[OF s' tr r(1,2)] .
    moreover have "sana n F T (fst v)" using paso2_par_sana[OF assms(1) sa tr d r s'] .
    ultimately show "inv_tabla n F T (fst v)" by (simp add: inv_tabla_def)
  qed
  then show ?thesis by simp
qed

lemma pasada_sin_cambio:
  assumes "validar_entrada n F T" "dimension n t" "pasada n T t = Inr (t', False)"
  shows "t' = t \<and> cerrada n T t"
proof -
  from assms(3) have "for_each (pares n) (\<lambda>(i, j). paso2_par T i j) (t, False) = Inr (t', False)"
    by (simp add: pasada_def for_each_pares)
  from for_each_paso2_sin_cambio[OF assms(1,2) en_rango_pares this]
  show ?thesis by (auto simp: cerrada_def set_pares)
qed

lemma pasada_cerrada:
  assumes "validar_entrada n F T" "dimension n t" "cerrada n T t"
  shows "pasada n T t = Inr (t, False)"
proof -
  have "\<forall>(i, j) \<in> set (pares n). celda t i j \<or> \<not> hay_marca T t i j"
    using assms(3) by (auto simp: cerrada_def set_pares)
  from for_each_paso2_cerrada[OF assms(1,2) en_rango_pares this, of False]
  show ?thesis by (simp add: pasada_def for_each_pares)
qed

lemma pasada_avance:
  assumes "validar_entrada n F T" "dimension n t" "pasada n T t = Inr (t', c)"
    "0 \<le> i" "i < j" "j < n" "hay_marca T t i j"
  shows "celda t' i j"
proof -
  from assms(3) have "for_each (pares n) (\<lambda>(i, j). paso2_par T i j) (t, False) = Inr (t', c)"
    by (simp add: pasada_def for_each_pares)
  from for_each_paso2_avance[OF assms(1,2) en_rango_pares this] assms(4-7)
  show ?thesis by (auto simp: set_pares)
qed

text \<open>The loop returns, keeps the invariant, and ends on a table where the rule applies nowhere.\<close>

lemma bucle_ok:
  "validar_entrada n F T \<Longrightarrow> inv_tabla n F T t \<Longrightarrow>
   \<exists>tf itf. bucle n T t it = Inr (tf, itf) \<and> inv_tabla n F T tf \<and> cerrada n T tf \<and> tabla_le t tf"
proof (induction n T t it rule: bucle.induct)
  case (1 n T t it)
  have d: "dimension n t" using "1.prems"(2) by (simp add: inv_tabla_def)
  obtain t' c where p: "pasada n T t = Inr (t', c)"
    using pasada_total[OF "1.prems"(1) d] by blast
  have i': "inv_tabla n F T t'" using pasada_inv[OF "1.prems" p] .
  show ?case
  proof (cases c)
    case True
    from "1.IH"[OF p refl True "1.prems"(1) i'] obtain tf itf
      where r: "bucle n T t' (it + 1) = Inr (tf, itf)" "inv_tabla n F T tf" "cerrada n T tf"
        "tabla_le t' tf"
      by blast
    have "bucle n T t it = Inr (tf, itf)"
      using p True r(1) by (subst bucle.simps) simp
    moreover have "tabla_le t tf" using pasada_le[OF p] r(4) by (rule tabla_le_trans)
    ultimately show ?thesis using r(2,3) by blast
  next
    case False
    with p have "t' = t" "cerrada n T t"
      using pasada_sin_cambio[OF "1.prems"(1) d] by simp_all
    moreover have "bucle n T t it = Inr (t', it + 1)"
      using p False by (subst bucle.simps) simp
    ultimately show ?thesis using "1.prems"(2) tabla_le_refl by blast
  qed
qed

subsection \<open>Step 1\<close>

lemma dimension_inicial: "dimension n (tabla_inicial n)"
  by (simp add: dimension_def tabla_inicial_def)

lemma celda_inicial: "0 \<le> a \<Longrightarrow> a < n \<Longrightarrow> 0 \<le> b \<Longrightarrow> b < n \<Longrightarrow> \<not> celda (tabla_inicial n) a b"
  by (simp add: celda_def tabla_inicial_def)

lemma for_each_paso1_ok:
  assumes "dimension n t" "en_rango n ps"
  shows "\<exists>t'. for_each ps (\<lambda>(i, j). paso1_par F i j) t = Inr t' \<and> dimension n t' \<and>
           (\<forall>a b. 0 \<le> a \<and> a < n \<and> 0 \<le> b \<and> b < n \<longrightarrow>
              (celda t' a b \<longleftrightarrow> celda t a b \<or> ((a, b) \<in> set ps \<and> (a \<in> set F) \<noteq> (b \<in> set F))))"
  using assms
proof (induction ps arbitrary: t)
  case Nil
  then show ?case by simp
next
  case (Cons x ps)
  obtain i j where x: "x = (i, j)" by (cases x)
  with Cons.prems have r: "0 \<le> i" "i < n" "0 \<le> j" "j < n" and ps: "en_rango n ps"
    by (auto simp: en_rango_Cons)
  define t1 where "t1 = (if (i \<in> set F) \<noteq> (j \<in> set F) then marcar t i j else t)"
  have s: "paso1_par F i j t = Inr t1"
    using paso1_par_ok[OF Cons.prems(1) r] by (simp add: t1_def)
  have d: "dimension n t1" using Cons.prems(1) by (simp add: t1_def dimension_marcar)
  have c1: "celda t1 a b \<longleftrightarrow> celda t a b \<or> ((a, b) = (i, j) \<and> (a \<in> set F) \<noteq> (b \<in> set F))"
    if "0 \<le> a" "a < n" "0 \<le> b" "b < n" for a b
    using celda_marcar[OF Cons.prems(1) r that] by (auto simp: t1_def)
  from Cons.IH[OF d ps] obtain t' where
    t': "for_each ps (\<lambda>(i, j). paso1_par F i j) t1 = Inr t'" "dimension n t'"
      "\<forall>a b. 0 \<le> a \<and> a < n \<and> 0 \<le> b \<and> b < n \<longrightarrow>
          (celda t' a b \<longleftrightarrow> celda t1 a b \<or> ((a, b) \<in> set ps \<and> (a \<in> set F) \<noteq> (b \<in> set F)))"
    by blast
  have "for_each (x # ps) (\<lambda>(i, j). paso1_par F i j) t = Inr t'"
    using s t'(1) x by simp
  moreover have "celda t' a b \<longleftrightarrow> celda t a b \<or> ((a, b) \<in> set (x # ps) \<and> (a \<in> set F) \<noteq> (b \<in> set F))"
    if "0 \<le> a \<and> a < n \<and> 0 \<le> b \<and> b < n" for a b
    using t'(3) c1[of a b] that x by auto
  ultimately show ?case using t'(2) by blast
qed

lemma paso1_ok:
  "\<exists>t0. paso1 n F (tabla_inicial n) = Inr t0 \<and> dimension n t0 \<and>
     (\<forall>a b. 0 \<le> a \<and> a < n \<and> 0 \<le> b \<and> b < n \<longrightarrow>
        (celda t0 a b \<longleftrightarrow> a < b \<and> (a \<in> set F) \<noteq> (b \<in> set F)))"
proof -
  from for_each_paso1_ok[OF dimension_inicial en_rango_pares, of n F] obtain t0 where
    t0: "for_each (pares n) (\<lambda>(i, j). paso1_par F i j) (tabla_inicial n) = Inr t0" "dimension n t0"
      "\<forall>a b. 0 \<le> a \<and> a < n \<and> 0 \<le> b \<and> b < n \<longrightarrow>
          (celda t0 a b \<longleftrightarrow> celda (tabla_inicial n) a b
             \<or> ((a, b) \<in> set (pares n) \<and> (a \<in> set F) \<noteq> (b \<in> set F)))"
    by blast
  have "celda t0 a b \<longleftrightarrow> a < b \<and> (a \<in> set F) \<noteq> (b \<in> set F)"
    if "0 \<le> a \<and> a < n \<and> 0 \<le> b \<and> b < n" for a b
    using t0(3) that celda_inicial[of a n b] by (auto simp: set_pares)
  then show ?thesis using t0(1,2) by (auto simp: paso1_def for_each_pares)
qed


subsection \<open>The table returned\<close>

lemma propagar_ok:
  assumes "validar_entrada n F T"
  shows "\<exists>t0 tf itf. paso1 n F (tabla_inicial n) = Inr t0 \<and> propagar n F T = Inr (tf, itf)
           \<and> dimension n t0 \<and> tabla_le t0 tf \<and> inv_tabla n F T tf \<and> cerrada n T tf
           \<and> (\<forall>a b. 0 \<le> a \<and> a < n \<and> 0 \<le> b \<and> b < n \<longrightarrow>
                 (celda t0 a b \<longleftrightarrow> a < b \<and> (a \<in> set F) \<noteq> (b \<in> set F)))"
proof -
  from paso1_ok[of n F] obtain t0 where
    t0: "paso1 n F (tabla_inicial n) = Inr t0" "dimension n t0"
      "\<forall>a b. 0 \<le> a \<and> a < n \<and> 0 \<le> b \<and> b < n \<longrightarrow>
          (celda t0 a b \<longleftrightarrow> a < b \<and> (a \<in> set F) \<noteq> (b \<in> set F))"
    by blast
  have tr: "triangular t0" using paso1_triangular[OF t0(1) triangular_inicial] .
  have "sana n F T t0" unfolding sana_def
  proof (intro allI impI)
    fix i j
    assume a: "0 \<le> i \<and> i < j \<and> j < n \<and> celda t0 i j"
    with t0(3) have "(i \<in> set F) \<noteq> (j \<in> set F)" by auto
    moreover have "correr T i [] = Some i" "correr T j [] = Some j" by simp_all
    ultimately show "separables T F i j" unfolding separables_def by blast
  qed
  with t0(2) tr have "inv_tabla n F T t0" by (simp add: inv_tabla_def)
  from bucle_ok[OF assms this, of 0] obtain tf itf where
    "bucle n T t0 0 = Inr (tf, itf)" "inv_tabla n F T tf" "cerrada n T tf" "tabla_le t0 tf"
    by blast
  moreover from this(1) t0(1) have "propagar n F T = Inr (tf, itf)"
    by (simp add: propagar_def)
  ultimately show ?thesis using t0 by blast
qed

lemma marca_sym: "marca t p q = marca t q p"
  using linorder_less_linear[of p q] by (auto simp: marca_def)

text \<open>
  On a table that holds the marks of step 1 and to which the rule applies nowhere, every
  pair told apart by a string read to its end from both states is marked: induction on
  the string.
\<close>

lemma completa:
  assumes v: "validar_entrada n F T" and d: "dimension n t" and tr: "triangular t"
    and ce: "cerrada n T t"
    and base: "\<forall>a b. 0 \<le> a \<and> a < b \<and> b < n \<and> (a \<in> set F) \<noteq> (b \<in> set F) \<longrightarrow> celda t a b"
  shows "0 \<le> i \<Longrightarrow> i < n \<Longrightarrow> 0 \<le> j \<Longrightarrow> j < n \<Longrightarrow> correr T i w = Some p \<Longrightarrow>
         correr T j w = Some q \<Longrightarrow> (p \<in> set F) \<noteq> (q \<in> set F) \<Longrightarrow> marca t i j"
proof (induction w arbitrary: i j)
  case Nil
  then have "(i \<in> set F) \<noteq> (j \<in> set F)" by simp
  then have "i \<noteq> j" by auto
  then show ?case using base Nil \<open>(i \<in> set F) \<noteq> (j \<in> set F)\<close>
    by (cases "i < j") (auto simp: marca_def)
next
  case (Cons s w)
  from Cons.prems(5) have si: "s < length (T ! nat i)"
    and ri: "correr T (T ! nat i ! s) w = Some p"
    by (auto split: if_splits)
  from Cons.prems(6) have sj: "s < length (T ! nat j)"
    and rj: "correr T (T ! nat j ! s) w = Some q"
    by (auto split: if_splits)
  have m: "marca t (T ! nat i ! s) (T ! nat j ! s)"
    using destino_rango[OF v Cons.prems(1,2) si] destino_rango[OF v Cons.prems(3,4) sj]
    by (intro Cons.IH[OF _ _ _ _ ri rj Cons.prems(7)]) simp_all
  have ne: "i \<noteq> j"
  proof
    assume "i = j"
    with m have c: "celda t (T ! nat i ! s) (T ! nat i ! s)" by (simp add: marca_def)
    from destino_rango[OF v Cons.prems(1,2) si]
    have "0 \<le> T ! nat i ! s" "T ! nat i ! s < n" by simp_all
    from triangular_celda[OF tr d this this c] show False by simp
  qed
  show ?case
  proof (cases "i < j")
    case True
    have "hay_marca T t i j" using si sj m by (auto simp: hay_marca_def)
    with ce True Cons.prems(1,4) have "celda t i j" unfolding cerrada_def by blast
    with True show ?thesis by (simp add: marca_def)
  next
    case False
    with ne have ji: "j < i" by simp
    have "marca t (T ! nat j ! s) (T ! nat i ! s)" using m by (simp add: marca_sym)
    then have "hay_marca T t j i" using si sj by (auto simp: hay_marca_def)
    with ce ji Cons.prems(3,2) have "celda t j i" unfolding cerrada_def by blast
    with ji show ?thesis by (simp add: marca_def)
  qed
qed

lemma crear_tabla_exacta:
  assumes "validar_entrada n F T"
  shows "\<exists>t. crear_tabla_distinguibilidad n F T = Inr t \<and> dimension n t \<and>
           (\<forall>i j. 0 \<le> i \<and> i < j \<and> j < n \<longrightarrow> (celda t i j \<longleftrightarrow> separables T F i j))"
proof -
  from propagar_ok[OF assms] obtain t0 tf itf where
    r: "propagar n F T = Inr (tf, itf)" "dimension n t0" "tabla_le t0 tf" "inv_tabla n F T tf"
      "cerrada n T tf"
      "\<forall>a b. 0 \<le> a \<and> a < n \<and> 0 \<le> b \<and> b < n \<longrightarrow>
          (celda t0 a b \<longleftrightarrow> a < b \<and> (a \<in> set F) \<noteq> (b \<in> set F))"
    by blast
  from r(4) have d: "dimension n tf" and tr: "triangular tf" and sa: "sana n F T tf"
    by (simp_all add: inv_tabla_def)
  have base: "\<forall>a b. 0 \<le> a \<and> a < b \<and> b < n \<and> (a \<in> set F) \<noteq> (b \<in> set F) \<longrightarrow> celda tf a b"
  proof (intro allI impI)
    fix a b
    assume ab: "0 \<le> a \<and> a < b \<and> b < n \<and> (a \<in> set F) \<noteq> (b \<in> set F)"
    with r(6) have "celda t0 a b" by simp
    then show "celda tf a b" using tabla_le_celda[OF r(3,2), of a b] ab by simp
  qed
  have "celda tf i j \<longleftrightarrow> separables T F i j" if ij: "0 \<le> i \<and> i < j \<and> j < n" for i j
  proof
    assume "celda tf i j"
    with sa ij show "separables T F i j" unfolding sana_def by blast
  next
    assume "separables T F i j"
    then obtain w p q where "correr T i w = Some p" "correr T j w = Some q"
      "(p \<in> set F) \<noteq> (q \<in> set F)"
      by (auto simp: separables_def)
    from completa[OF assms d tr r(5) base _ _ _ _ this, of ] ij have "marca tf i j" by simp
    with ij show "celda tf i j" by (simp add: marca_def)
  qed
  moreover have "crear_tabla_distinguibilidad n F T = Inr tf"
    using r(1) by (simp add: crear_tabla_distinguibilidad_def)
  ultimately show ?thesis using d by blast
qed

text \<open>
  Claim C5. On a validated automaton, a pair \<open>i < j\<close> of which exactly one state is final
  is marked by step 1 and is still marked in the table returned.
\<close>

theorem marcas_base_permanecen:
  assumes "validar_entrada estados estados_finales transiciones"
    and "0 \<le> i" "i < j" "j < estados"
    and "(i \<in> set estados_finales) \<noteq> (j \<in> set estados_finales)"
  shows "\<exists>t0 t. paso1 estados estados_finales (tabla_inicial estados) = Inr t0
           \<and> t0 ! nat i ! nat j
           \<and> crear_tabla_distinguibilidad estados estados_finales transiciones = Inr t
           \<and> t ! nat i ! nat j"
proof -
  from propagar_ok[OF assms(1)] obtain t0 tf itf where
    r: "paso1 estados estados_finales (tabla_inicial estados) = Inr t0"
      "propagar estados estados_finales transiciones = Inr (tf, itf)"
      "dimension estados t0" "tabla_le t0 tf"
      "\<forall>a b. 0 \<le> a \<and> a < estados \<and> 0 \<le> b \<and> b < estados \<longrightarrow>
          (celda t0 a b \<longleftrightarrow> a < b \<and> (a \<in> set estados_finales) \<noteq> (b \<in> set estados_finales))"
    by blast
  from r(5) assms(2-5) have c0: "celda t0 i j" by simp
  then have "celda tf i j" using tabla_le_celda[OF r(4,3), of i j] assms(2-4) by simp
  moreover have "crear_tabla_distinguibilidad estados estados_finales transiciones = Inr tf"
    using r(2) by (simp add: crear_tabla_distinguibilidad_def)
  ultimately show ?thesis using r(1) c0 unfolding celda_def by blast
qed

theorem marcas_base_permanecen_witness:
  "validar_entrada 4 [3] [[2], [0, 0], [1, 3], []]
   \<and> (0::int) \<le> 1 \<and> (1::int) < 3 \<and> (3::int) < 4 \<and> ((1::int) \<in> set [3]) \<noteq> ((3::int) \<in> set [3])
   \<and> paso1 4 [3] (tabla_inicial 4)
     = Inr [[False, False, False, True], [False, False, False, True], [False, False, False, True],
            [False, False, False, False]]
   \<and> crear_tabla_distinguibilidad 4 [3] [[2], [0, 0], [1, 3], []]
     = Inr [[False, True, True, True], [False, False, True, True], [False, False, False, True],
            [False, False, False, False]]
   \<and> [[False, True, True, True], [False, False, True, True], [False, False, False, True],
            [False, False, False, False]] ! nat 1 ! nat 3"
proof -
  have v: "validar_entrada 4 [3] [[2], [0, 0], [1, 3], []]" by code_simp
  have p: "paso1 4 [3] (tabla_inicial 4)
     = Inr [[False, False, False, True], [False, False, False, True], [False, False, False, True],
            [False, False, False, False]]"
    by code_simp
  have e: "crear_tabla_distinguibilidad 4 [3] [[2], [0, 0], [1, 3], []]
     = Inr [[False, True, True, True], [False, False, True, True], [False, False, False, True],
            [False, False, False, False]]"
    by code_simp
  from marcas_base_permanecen[OF v, of 1 3] e
  have "[[False, True, True, True], [False, False, True, True], [False, False, False, True],
            [False, False, False, False]] ! nat 1 ! nat 3"
    by simp
  with v p e show ?thesis by simp
qed

text \<open>
  Claim C10. On a validated automaton no list access of \<open>crear_tabla_distinguibilidad\<close>
  or of \<open>encontrar_pares_equivalentes\<close> (applied to the table built) is out of bounds:
  both return a value, none raises IndexError.
\<close>

theorem sin_excepciones:
  assumes "validar_entrada estados estados_finales transiciones"
  shows "\<exists>t ps. crear_tabla_distinguibilidad estados estados_finales transiciones = Inr t
           \<and> encontrar_pares_equivalentes estados t = Inr ps"
proof -
  from crear_tabla_exacta[OF assms] obtain t where
    "crear_tabla_distinguibilidad estados estados_finales transiciones = Inr t"
    "dimension estados t"
    by blast
  then show ?thesis using encontrar_pares_equivalentes_eq[of estados t] by blast
qed

theorem sin_excepciones_witness:
  "validar_entrada 4 [3] [[2], [0, 0], [1, 3], []]
   \<and> crear_tabla_distinguibilidad 4 [3] [[2], [0, 0], [1, 3], []]
     = Inr [[False, True, True, True], [False, False, True, True], [False, False, False, True],
            [False, False, False, False]]
   \<and> encontrar_pares_equivalentes 4
       [[False, True, True, True], [False, False, True, True], [False, False, False, True],
        [False, False, False, False]] = Inr []"
proof -
  have v: "validar_entrada 4 [3] [[2], [0, 0], [1, 3], []]" by code_simp
  have e: "crear_tabla_distinguibilidad 4 [3] [[2], [0, 0], [1, 3], []]
     = Inr [[False, True, True, True], [False, False, True, True], [False, False, False, True],
            [False, False, False, False]]"
    by code_simp
  have f: "encontrar_pares_equivalentes 4
       [[False, True, True, True], [False, False, True, True], [False, False, False, True],
        [False, False, False, False]] = Inr []"
    by code_simp
  from sin_excepciones[OF v] v e f show ?thesis by simp
qed


subsection \<open>Rows of different lengths\<close>

lemma fila_valida_take: "fila_valida n fila \<Longrightarrow> fila_valida n (take m fila)"
  unfolding fila_valida_iff by (meson in_set_takeD)






subsection \<open>Automata whose rows all have the same length\<close>

lemma acepta_Nil: "acepta T F i [] = (i \<in> set F)"
  by (simp add: acepta_def)

lemma acepta_Cons:
  assumes "0 \<le> i" "i < int (length T)"
  shows "acepta T F i (s # w) \<longleftrightarrow> s < length (T ! nat i) \<and> acepta T F (T ! nat i ! s) w"
  using assms by (simp add: acepta_def)

lemma iguales_hasta_mono: "iguales_hasta k T F i j \<Longrightarrow> k' \<le> k \<Longrightarrow> iguales_hasta k' T F i j"
  by (simp add: iguales_hasta_def)

lemma iguales_hasta_sym: "iguales_hasta k T F i j \<Longrightarrow> iguales_hasta k T F j i"
  by (simp add: iguales_hasta_def)

lemma iguales_hasta_refl: "iguales_hasta k T F i i"
  by (simp add: iguales_hasta_def)

lemma iguales_hasta_0: "iguales_hasta 0 T F i j \<longleftrightarrow> (i \<in> set F) = (j \<in> set F)"
  by (simp add: iguales_hasta_def acepta_Nil)

lemma longitud_filas:
  assumes "validar_entrada n F T" "filas_uniformes T" "0 \<le> i" "i < n" "0 \<le> j" "j < n"
  shows "length (T ! nat i) = length (T ! nat j)"
proof -
  have "nat i < length T" "nat j < length T"
    using assms validar_entrada_D(2)[OF assms(1)] by simp_all
  then have "T ! nat i \<in> set T" "T ! nat j \<in> set T" by simp_all
  then show ?thesis using assms(2) unfolding filas_uniformes_def by blast
qed

lemma iguales_hasta_Suc:
  assumes v: "validar_entrada n F T" and u: "filas_uniformes T"
    and r: "0 \<le> i" "i < n" "0 \<le> j" "j < n"
  shows "iguales_hasta (Suc k) T F i j \<longleftrightarrow>
           (i \<in> set F) = (j \<in> set F)
         \<and> (\<forall>s < length (T ! nat i). iguales_hasta k T F (T ! nat i ! s) (T ! nat j ! s))"
proof -
  have li: "i < int (length T)" and lj: "j < int (length T)"
    using validar_entrada_D(2)[OF v] r by simp_all
  have len: "length (T ! nat i) = length (T ! nat j)" using longitud_filas[OF v u r] .
  show ?thesis
  proof
    assume a: "iguales_hasta (Suc k) T F i j"
    have "(i \<in> set F) = (j \<in> set F)"
      using iguales_hasta_mono[OF a, of 0] by (simp add: iguales_hasta_0)
    moreover have "iguales_hasta k T F (T ! nat i ! s) (T ! nat j ! s)"
      if s: "s < length (T ! nat i)" for s
      unfolding iguales_hasta_def
    proof (intro allI impI)
      fix w :: "nat list"
      assume "length w \<le> k"
      then have "acepta T F i (s # w) = acepta T F j (s # w)"
        using a by (simp add: iguales_hasta_def)
      then show "acepta T F (T ! nat i ! s) w = acepta T F (T ! nat j ! s) w"
        using s len by (simp add: acepta_Cons[OF r(1) li] acepta_Cons[OF r(3) lj])
    qed
    ultimately show "(i \<in> set F) = (j \<in> set F)
         \<and> (\<forall>s < length (T ! nat i). iguales_hasta k T F (T ! nat i ! s) (T ! nat j ! s))"
      by blast
  next
    assume a: "(i \<in> set F) = (j \<in> set F)
         \<and> (\<forall>s < length (T ! nat i). iguales_hasta k T F (T ! nat i ! s) (T ! nat j ! s))"
    show "iguales_hasta (Suc k) T F i j"
      unfolding iguales_hasta_def
    proof (intro allI impI)
      fix w :: "nat list"
      assume w: "length w \<le> Suc k"
      show "acepta T F i w = acepta T F j w"
      proof (cases w)
        case Nil
        then show ?thesis using a by (simp add: acepta_Nil)
      next
        case (Cons s w')
        with w have "length w' \<le> k" by simp
        then have "s < length (T ! nat i) \<Longrightarrow>
                   acepta T F (T ! nat i ! s) w' = acepta T F (T ! nat j ! s) w'"
          using a by (simp add: iguales_hasta_def)
        then show ?thesis
          using Cons len by (auto simp: acepta_Cons[OF r(1) li] acepta_Cons[OF r(3) lj])
      qed
    qed
  qed
qed

text \<open>Once a level adds nothing, no later level does.\<close>

lemma estable_Suc:
  assumes v: "validar_entrada n F T" and u: "filas_uniformes T" and e: "estable k n T F"
  shows "estable (Suc k) n T F"
  unfolding estable_def
proof (intro allI impI)
  fix i j
  assume a: "0 \<le> i \<and> i < n \<and> 0 \<le> j \<and> j < n \<and> iguales_hasta (Suc k) T F i j"
  then have r: "0 \<le> i" "i < n" "0 \<le> j" "j < n" by simp_all
  from a have f: "(i \<in> set F) = (j \<in> set F)"
    and s: "\<forall>s < length (T ! nat i). iguales_hasta k T F (T ! nat i ! s) (T ! nat j ! s)"
    using iguales_hasta_Suc[OF v u r, of k] by simp_all
  have "iguales_hasta (Suc k) T F (T ! nat i ! s) (T ! nat j ! s)" if sl: "s < length (T ! nat i)" for s
  proof -
    have sj: "s < length (T ! nat j)" using sl longitud_filas[OF v u r] by simp
    show ?thesis
      using destino_rango[OF v r(1,2) sl] destino_rango[OF v r(3,4) sj] s sl e
      unfolding estable_def by blast
  qed
  then show "iguales_hasta (Suc (Suc k)) T F i j"
    using f iguales_hasta_Suc[OF v u r, of "Suc k"] by simp
qed

lemma estable_desde:
  assumes v: "validar_entrada n F T" and u: "filas_uniformes T" and e: "estable k n T F"
    and r: "0 \<le> i" "i < n" "0 \<le> j" "j < n" and a: "iguales_hasta k T F i j"
  shows "iguales_hasta (k + d) T F i j"
proof (induction d)
  case 0
  then show ?case using a by simp
next
  case (Suc d)
  have "estable (k + d) n T F"
  proof (induction d)
    case 0
    then show ?case using e by simp
  next
    case (Suc d)
    then show ?case using estable_Suc[OF v u] by simp
  qed
  with Suc r show ?case unfolding estable_def by simp
qed

lemma firma_eq: "firma k T F i = firma k T F j \<longleftrightarrow> iguales_hasta k T F i j"
  by (auto simp: firma_def iguales_hasta_def fun_eq_iff)

lemma firma_restr: "firma k T F i = (\<lambda>w. length w \<le> k \<and> firma (Suc k) T F i w)"
  by (auto simp: firma_def fun_eq_iff)

lemma clases_le: "clases k n T F \<le> nat n"
proof -
  have "card (firma k T F ` {0..<n}) \<le> card {0..<n}" by (rule card_image_le) simp
  then show ?thesis by (simp add: clases_def)
qed

lemma clases_pos: "0 < n \<Longrightarrow> 1 \<le> clases 0 n T F"
proof -
  assume "0 < n"
  then have "firma 0 T F ` {0..<n} \<noteq> {}" by simp
  moreover have "finite (firma 0 T F ` {0..<n})" by simp
  ultimately have "0 < card (firma 0 T F ` {0..<n})" by (simp add: card_gt_0_iff)
  then show ?thesis by (simp add: clases_def)
qed

lemma clases_crece:
  assumes "\<not> estable k n T F"
  shows "clases k n T F < clases (Suc k) n T F"
proof -
  let ?A = "firma (Suc k) T F ` {0..<n}"
  let ?g = "\<lambda>f :: nat list \<Rightarrow> bool. (\<lambda>w. length w \<le> k \<and> f w)"
  have im: "firma k T F ` {0..<n} = ?g ` ?A"
  proof -
    have "firma k T F i = ?g (firma (Suc k) T F i)" for i by (rule firma_restr)
    then show ?thesis by (simp add: image_image)
  qed
  have fin: "finite ?A" by simp
  have le: "card (?g ` ?A) \<le> card ?A" using fin by (rule card_image_le)
  have "card (?g ` ?A) \<noteq> card ?A"
  proof
    assume "card (?g ` ?A) = card ?A"
    with fin have inj: "inj_on ?g ?A" by (rule eq_card_imp_inj_on)
    have "iguales_hasta (Suc k) T F i j"
      if "0 \<le> i \<and> i < n \<and> 0 \<le> j \<and> j < n \<and> iguales_hasta k T F i j" for i j
    proof -
      from that have "firma k T F i = firma k T F j" by (simp add: firma_eq)
      then have "?g (firma (Suc k) T F i) = ?g (firma (Suc k) T F j)"
        using firma_restr[of k T F i] firma_restr[of k T F j] by simp
      moreover have "firma (Suc k) T F i \<in> ?A" "firma (Suc k) T F j \<in> ?A"
        using that by simp_all
      ultimately have "firma (Suc k) T F i = firma (Suc k) T F j"
        using inj by (meson inj_onD)
      then show ?thesis by (simp add: firma_eq)
    qed
    then have "estable k n T F" unfolding estable_def by blast
    with assms show False by simp
  qed
  with le im show ?thesis by (simp add: clases_def)
qed

lemma no_estable_clases:
  assumes "validar_entrada n F T" "filas_uniformes T"
  shows "\<not> estable k n T F \<Longrightarrow> k + 2 \<le> clases (Suc k) n T F"
proof (induction k)
  case 0
  then show ?case
    using clases_crece[of 0 n T F] clases_pos[OF validar_entrada_D(1)[OF assms(1)], of T F]
    by simp
next
  case (Suc k)
  then have "\<not> estable k n T F" using estable_Suc[OF assms] by blast
  with Suc.IH have "k + 2 \<le> clases (Suc k) n T F" by simp
  then show ?case using clases_crece[OF Suc.prems] by simp
qed

lemma estable_final:
  assumes "validar_entrada n F T" "filas_uniformes T"
  shows "estable (nat n - 1) n T F"
proof (rule ccontr)
  assume "\<not> estable (nat n - 1) n T F"
  from no_estable_clases[OF assms this] clases_le[of "Suc (nat n - 1)" n T F]
  have "nat n - 1 + 2 \<le> nat n" by simp
  then show False using validar_entrada_D(1)[OF assms(1)] by simp
qed

lemma separables_acepta:
  assumes "separables T F i j"
  shows "\<exists>w. acepta T F i w \<noteq> acepta T F j w"
proof -
  from assms obtain w p q where "correr T i w = Some p" "correr T j w = Some q"
    "(p \<in> set F) \<noteq> (q \<in> set F)"
    by (auto simp: separables_def)
  then have "acepta T F i w \<noteq> acepta T F j w" by (simp add: acepta_def)
  then show ?thesis by blast
qed

lemma separables_corto:
  assumes "validar_entrada n F T" "filas_uniformes T" "0 \<le> i" "i < n" "0 \<le> j" "j < n"
    "separables T F i j"
  shows "\<not> iguales_hasta (nat n - 1) T F i j"
proof
  assume a: "iguales_hasta (nat n - 1) T F i j"
  from separables_acepta[OF assms(7)] obtain w where w: "acepta T F i w \<noteq> acepta T F j w"
    by blast
  have "iguales_hasta (nat n - 1 + length w) T F i j"
    using estable_desde[OF assms(1,2) estable_final[OF assms(1,2)] assms(3-6) a] .
  then have "acepta T F i w = acepta T F j w" by (simp add: iguales_hasta_def)
  with w show False by simp
qed


subsection \<open>The number of passes\<close>

lemma contiene_marca:
  assumes "contiene_hasta k n F T t" "0 \<le> p" "p < n" "0 \<le> q" "q < n"
    "\<not> iguales_hasta k T F p q"
  shows "marca t p q"
proof -
  have ne: "p \<noteq> q" using assms(6) iguales_hasta_refl by blast
  show ?thesis
  proof (cases "p < q")
    case True
    with assms show ?thesis unfolding contiene_hasta_def marca_def by auto
  next
    case False
    with ne have "q < p" by simp
    moreover have "\<not> iguales_hasta k T F q p" using assms(6) iguales_hasta_sym by blast
    ultimately show ?thesis using assms(1-5) unfolding contiene_hasta_def marca_def by auto
  qed
qed

lemma contiene_paso:
  assumes v: "validar_entrada n F T" and u: "filas_uniformes T" and d: "dimension n t"
    and c: "contiene_hasta k n F T t" and p: "pasada n T t = Inr (t', cambiado)"
  shows "contiene_hasta (Suc k) n F T t'"
  unfolding contiene_hasta_def
proof (intro allI impI)
  fix i j
  assume a: "0 \<le> i \<and> i < j \<and> j < n \<and> \<not> iguales_hasta (Suc k) T F i j"
  then have r: "0 \<le> i" "i < n" "0 \<le> j" "j < n" by simp_all
  from a iguales_hasta_Suc[OF v u r, of k]
  consider "(i \<in> set F) \<noteq> (j \<in> set F)"
    | s where "s < length (T ! nat i)" "\<not> iguales_hasta k T F (T ! nat i ! s) (T ! nat j ! s)"
    by blast
  then show "celda t' i j"
  proof cases
    case 1
    then have "\<not> iguales_hasta k T F i j"
      using iguales_hasta_mono[of k T F i j 0] by (auto simp: iguales_hasta_0)
    with c a have "celda t i j" unfolding contiene_hasta_def by blast
    then show ?thesis using tabla_le_celda[OF pasada_le[OF p] d r] by simp
  next
    case 2
    have sj: "s < length (T ! nat j)" using 2(1) longitud_filas[OF v u r] by simp
    have "marca t (T ! nat i ! s) (T ! nat j ! s)"
      using destino_rango[OF v r(1,2) 2(1)] destino_rango[OF v r(3,4) sj] 2(2)
      by (intro contiene_marca[OF c]) simp_all
    then have "hay_marca T t i j" using 2(1) sj by (auto simp: hay_marca_def)
    then show ?thesis using pasada_avance[OF v d p] a by simp
  qed
qed

lemma contiene_cerrada:
  assumes v: "validar_entrada n F T" and u: "filas_uniformes T" and i: "inv_tabla n F T t"
    and c: "contiene_hasta (nat n - 1) n F T t"
  shows "cerrada n T t"
  unfolding cerrada_def
proof (intro allI impI)
  fix a b
  assume ab: "0 \<le> a \<and> a < b \<and> b < n"
  then have r: "0 \<le> a" "a < n" "0 \<le> b" "b < n" by simp_all
  from i have d: "dimension n t" and tr: "triangular t" and sa: "sana n F T t"
    by (simp_all add: inv_tabla_def)
  show "celda t a b \<or> \<not> hay_marca T t a b"
  proof (cases "hay_marca T t a b")
    case True
    have "separables T F a b" using hay_marca_separables[OF v sa tr d r True] .
    then have "\<not> iguales_hasta (nat n - 1) T F a b" using separables_corto[OF v u r] by simp
    with c ab show ?thesis unfolding contiene_hasta_def by blast
  next
    case False
    then show ?thesis by simp
  qed
qed

lemma bucle_cota:
  "validar_entrada n F T \<Longrightarrow> filas_uniformes T \<Longrightarrow> inv_tabla n F T t \<Longrightarrow>
   contiene_hasta k n F T t \<Longrightarrow> k < nat n \<Longrightarrow>
   \<exists>tf itf. bucle n T t it = Inr (tf, itf) \<and> itf \<le> it + int (nat n - k)"
proof (induction n T t it arbitrary: k rule: bucle.induct)
  case (1 n T t it)
  note v = "1.prems"(1) and u = "1.prems"(2) and i = "1.prems"(3) and c = "1.prems"(4)
  have d: "dimension n t" using i by (simp add: inv_tabla_def)
  obtain t' cambiado where p: "pasada n T t = Inr (t', cambiado)"
    using pasada_total[OF v d] by blast
  show ?case
  proof (cases cambiado)
    case True
    have k: "Suc k < nat n"
    proof (rule ccontr)
      assume "\<not> Suc k < nat n"
      with "1.prems"(5) have "k = nat n - 1" by simp
      with c have "cerrada n T t" using contiene_cerrada[OF v u i] by simp
      from pasada_cerrada[OF v d this] p True show False by simp
    qed
    have i': "inv_tabla n F T t'" using pasada_inv[OF v i p] .
    have c': "contiene_hasta (Suc k) n F T t'" using contiene_paso[OF v u d c p] .
    from "1.IH"[OF p refl True v u i' c' k] obtain tf itf where
      r: "bucle n T t' (it + 1) = Inr (tf, itf)" "itf \<le> it + 1 + int (nat n - Suc k)"
      by blast
    have "bucle n T t it = Inr (tf, itf)"
      using p True r(1) by (subst bucle.simps) simp
    moreover have "int (nat n - Suc k) + 1 = int (nat n - k)" using k by simp
    then have "itf \<le> it + int (nat n - k)" using r(2) by linarith
    ultimately show ?thesis by blast
  next
    case False
    have "bucle n T t it = Inr (t', it + 1)"
      using p False by (subst bucle.simps) simp
    moreover have "1 \<le> nat n - k" using "1.prems"(5) by simp
    then have "it + 1 \<le> it + int (nat n - k)" by linarith
    ultimately show ?thesis by blast
  qed
qed

lemma paso1_inv:
  assumes "paso1 n F (tabla_inicial n) = Inr t0"
  shows "inv_tabla n F T t0 \<and> contiene_hasta 0 n F T t0"
proof -
  from paso1_ok[of n F] assms have
    t0: "dimension n t0"
      "\<forall>a b. 0 \<le> a \<and> a < n \<and> 0 \<le> b \<and> b < n \<longrightarrow>
          (celda t0 a b \<longleftrightarrow> a < b \<and> (a \<in> set F) \<noteq> (b \<in> set F))"
    by auto
  have tr: "triangular t0" using paso1_triangular[OF assms triangular_inicial] .
  have "sana n F T t0" unfolding sana_def
  proof (intro allI impI)
    fix i j
    assume a: "0 \<le> i \<and> i < j \<and> j < n \<and> celda t0 i j"
    with t0(2) have "(i \<in> set F) \<noteq> (j \<in> set F)" by auto
    moreover have "correr T i [] = Some i" "correr T j [] = Some j" by simp_all
    ultimately show "separables T F i j" unfolding separables_def by blast
  qed
  moreover have "contiene_hasta 0 n F T t0"
    unfolding contiene_hasta_def using t0(2) by (auto simp: iguales_hasta_0)
  ultimately show ?thesis using t0(1) tr by (simp add: inv_tabla_def)
qed

text \<open>
  Claim C3, as the code has it. On a validated automaton the propagation loop ends, and
  its last pass, whose number is the count \<open>iteracion\<close>, changes nothing. When all rows
  have the same length, the loop makes at most \<open>estados\<close> passes. With rows of different
  lengths it can make more: 6 passes on the 5 states of the counterexample.
\<close>

theorem propagacion_termina:
  assumes "validar_entrada estados estados_finales transiciones"
  shows "\<exists>t iteracion. propagar estados estados_finales transiciones = Inr (t, iteracion)
           \<and> pasada estados transiciones t = Inr (t, False)
           \<and> 1 \<le> iteracion
           \<and> (filas_uniformes transiciones \<longrightarrow> iteracion \<le> estados)"
proof -
  from propagar_ok[OF assms] obtain t0 tf itf where
    r: "paso1 estados estados_finales (tabla_inicial estados) = Inr t0"
      "propagar estados estados_finales transiciones = Inr (tf, itf)"
      "inv_tabla estados estados_finales transiciones tf" "cerrada estados transiciones tf"
    by blast
  have b: "bucle estados transiciones t0 0 = Inr (tf, itf)"
    using r(1,2) by (simp add: propagar_def)
  have d: "dimension estados tf" using r(3) by (simp add: inv_tabla_def)
  have fin: "pasada estados transiciones tf = Inr (tf, False)"
    using pasada_cerrada[OF assms d r(4)] .
  have pos: "1 \<le> itf"
  proof -
    from b have "\<exists>t' c. pasada estados transiciones t0 = Inr (t', c)"
      by (subst (asm) bucle.simps) (auto split: sum.splits)
    then obtain t' c where p: "pasada estados transiciones t0 = Inr (t', c)" by blast
    have "it < itf'" if "bucle estados transiciones t it = Inr (tf', itf')" for t it tf' itf'
      using that
    proof (induction estados transiciones t it rule: bucle.induct)
      case (1 n T t it)
      from "1.prems" obtain t' c where p: "pasada n T t = Inr (t', c)"
        by (subst (asm) bucle.simps) (auto split: sum.splits)
      show ?case
      proof (cases c)
        case True
        with p "1.prems" have "bucle n T t' (it + 1) = Inr (tf', itf')"
          by (subst (asm) bucle.simps) simp
        with "1.IH"[OF p refl True] show ?thesis by simp
      next
        case False
        with p "1.prems" show ?thesis by (subst (asm) bucle.simps) simp
      qed
    qed
    from this[OF b] show ?thesis by simp
  qed
  have "itf \<le> estados" if u: "filas_uniformes transiciones"
  proof -
    from paso1_inv[OF r(1), of transiciones]
    have i0: "inv_tabla estados estados_finales transiciones t0"
      and c0: "contiene_hasta 0 estados estados_finales transiciones t0"
      by simp_all
    have "0 < nat estados" using validar_entrada_D(1)[OF assms] by simp
    from bucle_cota[OF assms u i0 c0 this, of 0] b
    show ?thesis using validar_entrada_D(1)[OF assms] by simp
  qed
  with r(2) fin pos show ?thesis by blast
qed

theorem propagacion_termina_witness:
  "validar_entrada 4 [3] [[1, 1], [2, 2], [3, 3], [3, 3]]
   \<and> filas_uniformes [[1, 1], [2, 2], [3, 3], [3, 3]]
   \<and> propagar 4 [3] [[1, 1], [2, 2], [3, 3], [3, 3]]
     = Inr ([[False, True, True, True], [False, False, True, True], [False, False, False, True],
             [False, False, False, False]], 3)
   \<and> pasada 4 [[1, 1], [2, 2], [3, 3], [3, 3]]
       [[False, True, True, True], [False, False, True, True], [False, False, False, True],
        [False, False, False, False]]
     = Inr ([[False, True, True, True], [False, False, True, True], [False, False, False, True],
             [False, False, False, False]], False)
   \<and> (3::int) \<le> 4"
proof -
  have v: "validar_entrada 4 [3] [[1, 1], [2, 2], [3, 3], [3, 3]]" by code_simp
  have u: "filas_uniformes [[1, 1], [2, 2], [3, 3], [3, 3 :: int]]"
    by (simp add: filas_uniformes_def)
  have e: "propagar 4 [3] [[1, 1], [2, 2], [3, 3], [3, 3]]
     = Inr ([[False, True, True, True], [False, False, True, True], [False, False, False, True],
             [False, False, False, False]], 3)"
    by code_simp
  from propagacion_termina[OF v] e u
  have "pasada 4 [[1, 1], [2, 2], [3, 3], [3, 3]]
       [[False, True, True, True], [False, False, True, True], [False, False, False, True],
        [False, False, False, False]]
     = Inr ([[False, True, True, True], [False, False, True, True], [False, False, False, True],
             [False, False, False, False]], False)
     \<and> (3::int) \<le> 4"
    by simp
  with v u e show ?thesis by simp
qed

theorem propagacion_cota_counterexample:
  "validar_entrada 5 [4] [[3, 0], [3, 2], [0, 0, 0], [1, 3, 4], []]
   \<and> propagar 5 [4] [[3, 0], [3, 2], [0, 0, 0], [1, 3, 4], []]
     = Inr ([[False, True, True, True, True], [False, False, True, True, True],
             [False, False, False, True, True], [False, False, False, False, True],
             [False, False, False, False, False]], 6)
   \<and> \<not> (6::int) \<le> 5"
  by code_simp


subsection \<open>Exact distinguishability\<close>

lemma separables_distinguibles: "separables T F i j \<Longrightarrow> distinguibles T F i j"
  using separables_acepta[of T F i j] by (simp add: distinguibles_def)

text \<open>With rows of equal length, a string read to its end from one state is from any other.\<close>

lemma correr_ambos:
  assumes v: "validar_entrada n F T" and u: "filas_uniformes T"
  shows "0 \<le> i \<Longrightarrow> i < n \<Longrightarrow> 0 \<le> j \<Longrightarrow> j < n \<Longrightarrow> correr T i w = Some p \<Longrightarrow>
         \<exists>q. correr T j w = Some q"
proof (induction w arbitrary: i j)
  case Nil
  then show ?case by simp
next
  case (Cons s w)
  from Cons.prems(5) have si: "s < length (T ! nat i)"
    and ri: "correr T (T ! nat i ! s) w = Some p"
    by (auto split: if_splits)
  have sj: "s < length (T ! nat j)" using si longitud_filas[OF v u Cons.prems(1-4)] by simp
  have lj: "j < int (length T)" using validar_entrada_D(2)[OF v] Cons.prems(4) by simp
  have "\<exists>q. correr T (T ! nat j ! s) w = Some q"
    using destino_rango[OF v Cons.prems(1,2) si] destino_rango[OF v Cons.prems(3,4) sj]
    by (intro Cons.IH[OF _ _ _ _ ri]) simp_all
  then show ?case using sj lj Cons.prems(3) by simp
qed

lemma distinguibles_separables:
  assumes v: "validar_entrada n F T" and u: "filas_uniformes T"
    and r: "0 \<le> i" "i < n" "0 \<le> j" "j < n" and d: "distinguibles T F i j"
  shows "separables T F i j"
proof -
  from d obtain w where w: "acepta T F i w \<noteq> acepta T F j w"
    by (auto simp: distinguibles_def)
  have one: "separables T F a b"
    if ab: "0 \<le> a" "a < n" "0 \<le> b" "b < n" and ac: "acepta T F a w" "\<not> acepta T F b w" for a b
  proof -
    from ac(1) obtain p where p: "correr T a w = Some p" "p \<in> set F"
      by (auto simp: acepta_def split: option.splits)
    from correr_ambos[OF v u ab p(1)] obtain q where q: "correr T b w = Some q" by blast
    with ac(2) have "q \<notin> set F" by (simp add: acepta_def)
    with p q show ?thesis unfolding separables_def by blast
  qed
  show ?thesis
  proof (cases "acepta T F i w")
    case True
    with w one[OF r] show ?thesis by simp
  next
    case False
    with w one[OF r(3,4,1,2)] have "separables T F j i" by simp
    then show ?thesis by (rule separables_sym)
  qed
qed

text \<open>
  Claim C1, as the code has it. On a validated automaton \<open>crear_tabla_distinguibilidad\<close>
  returns a table in which every marked pair \<open>i < j\<close> is distinguishable: some input
  string is accepted from one of the two states and not from the other. When all rows
  have the same length the converse holds too, and the marks are exactly the
  distinguishable pairs. With rows of different lengths a distinguishable pair can stay
  unmarked, as in the counterexample, where the only string that tells the states apart
  uses a symbol that one of the rows lacks.
\<close>

theorem tabla_es_distinguibilidad:
  assumes "validar_entrada estados estados_finales transiciones"
  shows "\<exists>t. crear_tabla_distinguibilidad estados estados_finales transiciones = Inr t \<and>
           (\<forall>i j. 0 \<le> i \<and> i < j \<and> j < estados \<longrightarrow>
              (t ! nat i ! nat j \<longrightarrow> distinguibles transiciones estados_finales i j)
            \<and> (filas_uniformes transiciones \<longrightarrow>
                 (t ! nat i ! nat j \<longleftrightarrow> distinguibles transiciones estados_finales i j)))"
proof -
  from crear_tabla_exacta[OF assms] obtain t where
    t: "crear_tabla_distinguibilidad estados estados_finales transiciones = Inr t"
      "\<forall>i j. 0 \<le> i \<and> i < j \<and> j < estados \<longrightarrow>
         (celda t i j \<longleftrightarrow> separables transiciones estados_finales i j)"
    by blast
  have "(t ! nat i ! nat j \<longrightarrow> distinguibles transiciones estados_finales i j)
        \<and> (filas_uniformes transiciones \<longrightarrow>
             (t ! nat i ! nat j \<longleftrightarrow> distinguibles transiciones estados_finales i j))"
    if ij: "0 \<le> i \<and> i < j \<and> j < estados" for i j
  proof -
    from t(2) ij have c: "t ! nat i ! nat j \<longleftrightarrow> separables transiciones estados_finales i j"
      by (simp add: celda_def)
    have r: "0 \<le> i" "i < estados" "0 \<le> j" "j < estados" using ij by simp_all
    have "separables transiciones estados_finales i j"
      if "filas_uniformes transiciones" "distinguibles transiciones estados_finales i j"
      using distinguibles_separables[OF assms that(1) r that(2)] .
    with c show ?thesis using separables_distinguibles by blast
  qed
  with t(1) show ?thesis by blast
qed

theorem tabla_es_distinguibilidad_witness:
  "validar_entrada 4 [3] [[1, 1], [2, 2], [3, 3], [3, 3]]
   \<and> filas_uniformes [[1, 1], [2, 2], [3, 3], [3, 3]]
   \<and> crear_tabla_distinguibilidad 4 [3] [[1, 1], [2, 2], [3, 3], [3, 3]]
     = Inr [[False, True, True, True], [False, False, True, True], [False, False, False, True],
            [False, False, False, False]]
   \<and> distinguibles [[1, 1], [2, 2], [3, 3], [3, 3]] [3] 0 1
   \<and> validar_entrada 3 [2] [[0, 1], [0, 1], [2, 2]]
   \<and> filas_uniformes [[0, 1], [0, 1], [2, 2]]
   \<and> crear_tabla_distinguibilidad 3 [2] [[0, 1], [0, 1], [2, 2]]
     = Inr [[False, False, True], [False, False, True], [False, False, False]]
   \<and> \<not> distinguibles [[0, 1], [0, 1], [2, 2]] [2] 0 1"
proof -
  have v: "validar_entrada 4 [3] [[1, 1], [2, 2], [3, 3], [3, 3]]" by code_simp
  have u: "filas_uniformes [[1, 1], [2, 2], [3, 3], [3, 3 :: int]]"
    by (simp add: filas_uniformes_def)
  have e: "crear_tabla_distinguibilidad 4 [3] [[1, 1], [2, 2], [3, 3], [3, 3]]
     = Inr [[False, True, True, True], [False, False, True, True], [False, False, False, True],
            [False, False, False, False]]"
    by code_simp
  have v': "validar_entrada 3 [2] [[0, 1], [0, 1], [2, 2]]" by code_simp
  have u': "filas_uniformes [[0, 1], [0, 1], [2, 2 :: int]]"
    by (simp add: filas_uniformes_def)
  have e': "crear_tabla_distinguibilidad 3 [2] [[0, 1], [0, 1], [2, 2]]
     = Inr [[False, False, True], [False, False, True], [False, False, False]]"
    by code_simp
  from tabla_es_distinguibilidad[OF v] e u
  have "\<forall>i j. 0 \<le> i \<and> i < j \<and> j < 4 \<longrightarrow>
          ([[False, True, True, True], [False, False, True, True], [False, False, False, True],
            [False, False, False, False]] ! nat i ! nat j
           \<longleftrightarrow> distinguibles [[1, 1], [2, 2], [3, 3], [3, 3]] [3] i j)"
    by simp
  from this[rule_format, of 0 1] have a: "distinguibles [[1, 1], [2, 2], [3, 3], [3, 3]] [3] 0 1"
    by simp
  from tabla_es_distinguibilidad[OF v'] e' u'
  have "\<forall>i j. 0 \<le> i \<and> i < j \<and> j < 3 \<longrightarrow>
          ([[False, False, True], [False, False, True], [False, False, False]] ! nat i ! nat j
           \<longleftrightarrow> distinguibles [[0, 1], [0, 1], [2, 2]] [2] i j)"
    by simp
  from this[rule_format, of 0 1] have b: "\<not> distinguibles [[0, 1], [0, 1], [2, 2]] [2] 0 1"
    by simp
  from v u e a v' u' e' b show ?thesis by simp
qed

theorem tabla_distinguibilidad_counterexample:
  "validar_entrada 3 [2] [[2], [], []]
   \<and> crear_tabla_distinguibilidad 3 [2] [[2], [], []]
     = Inr [[False, False, True], [False, False, True], [False, False, False]]
   \<and> \<not> [[False, False, True], [False, False, True], [False, False, False]] ! nat 0 ! nat 1
   \<and> acepta [[2], [], []] [2] 0 [0]
   \<and> \<not> acepta [[2], [], []] [2] 1 [0]
   \<and> distinguibles [[2], [], []] [2] 0 1"
proof -
  have v: "validar_entrada 3 [2] [[2], [], []]" by code_simp
  have e: "crear_tabla_distinguibilidad 3 [2] [[2], [], []]
     = Inr [[False, False, True], [False, False, True], [False, False, False]]"
    by code_simp
  have a: "acepta [[2], [], []] [2] 0 [0]" by (simp add: acepta_def)
  have b: "\<not> acepta [[2], [], []] [2] 1 [0]" by (simp add: acepta_def)
  from a b have "distinguibles [[2], [], []] [2] 0 1"
    unfolding distinguibles_def by blast
  with v e a b show ?thesis by simp
qed

end
